theory Spec2Isabelle
  imports Complex_Main "HOL-Library.Word"
begin

section \<open>Python values and exceptions\<close>

text \<open>
  The exceptions that \<^verbatim>\<open>glymur/tiff.py\<close> can raise, as values. \<open>RuntimeError\<close> carries
  its message; \<open>NameError\<close> carries the unbound name; \<open>KeyError\<close> carries the missing
  dictionary key. \<open>StructError\<close> is \<^verbatim>\<open>struct.error\<close>.
\<close>

datatype error =
    RuntimeError string
  | NameError string
  | KeyError nat
  | TypeError
  | IndexError
  | StructError
  | ValueError
  | ZeroDivisionError

type_synonym byte = "8 word"

text \<open>The bytes of an ASCII literal such as \<^verbatim>\<open>b'EXIF\0\0'\<close>.\<close>

definition bytes_of :: "string \<Rightarrow> byte list" where
  "bytes_of s = map (\<lambda>c. of_nat (of_char c)) s"

section \<open>The struct module\<close>

text \<open>
  Byte order prefixes \<^verbatim>\<open>'<'\<close> and \<^verbatim>\<open>'>'\<close>, and the format characters that occur in
  \<^verbatim>\<open>tag_dtype\<close> and in the calls of \<^verbatim>\<open>struct.pack\<close> and \<^verbatim>\<open>struct.unpack\<close>.
  A format string is a list of format characters.
\<close>

datatype endian = Little | Big

datatype fmt = FB | FH | FI | Fi | Ff | Fd | FQ | Fq

text \<open>
  An unpacked value is a Python int, or a Python float. A float is carried as the IEEE bit
  pattern it was read from: the transcoder only unpacks a float to pack it again in the
  same width.
\<close>

datatype pyval = PInt int | PFloat nat

fun fmt_size :: "fmt \<Rightarrow> nat" where
  "fmt_size FB = 1"
| "fmt_size FH = 2"
| "fmt_size FI = 4"
| "fmt_size Fi = 4"
| "fmt_size Ff = 4"
| "fmt_size Fd = 8"
| "fmt_size FQ = 8"
| "fmt_size Fq = 8"

definition calcsize :: "fmt list \<Rightarrow> nat" where
  "calcsize fs = sum_list (map fmt_size fs)"

fun le_nat :: "byte list \<Rightarrow> nat" where
  "le_nat [] = 0"
| "le_nat (b # bs) = unat b + 256 * le_nat bs"

fun nat_le :: "nat \<Rightarrow> nat \<Rightarrow> byte list" where
  "nat_le 0 v = []"
| "nat_le (Suc k) v = of_nat (v mod 256) # nat_le k (v div 256)"

definition bytes_nat :: "endian \<Rightarrow> byte list \<Rightarrow> nat" where
  "bytes_nat e bs = (case e of Little \<Rightarrow> le_nat bs | Big \<Rightarrow> le_nat (rev bs))"

definition signed_of :: "nat \<Rightarrow> nat \<Rightarrow> int" where
  "signed_of k n = (if n < 2 ^ (8 * k - 1) then int n else int n - 2 ^ (8 * k))"

fun unpack1 :: "endian \<Rightarrow> fmt \<Rightarrow> byte list \<Rightarrow> pyval" where
  "unpack1 e Fi bs = PInt (signed_of 4 (bytes_nat e bs))"
| "unpack1 e Fq bs = PInt (signed_of 8 (bytes_nat e bs))"
| "unpack1 e Ff bs = PFloat (bytes_nat e bs)"
| "unpack1 e Fd bs = PFloat (bytes_nat e bs)"
| "unpack1 e f bs = PInt (int (bytes_nat e bs))"

fun unpack_all :: "endian \<Rightarrow> fmt list \<Rightarrow> byte list \<Rightarrow> pyval list" where
  "unpack_all e [] bs = []"
| "unpack_all e (f # fs) bs =
     unpack1 e f (take (fmt_size f) bs) # unpack_all e fs (drop (fmt_size f) bs)"

text \<open>
  \<^verbatim>\<open>struct.unpack(fmt, buffer)\<close>: the buffer must be a bytes object of exactly the size
  of the format. The buffer argument is a Python object: indexing a bytes object with
  one index gives an int, not bytes.
\<close>

datatype pyobj = Bytes "byte list" | IntObj int

definition unpack :: "endian \<Rightarrow> fmt list \<Rightarrow> pyobj \<Rightarrow> error + pyval list" where
  "unpack e fs ob =
     (case ob of
        IntObj i \<Rightarrow> Inl TypeError
      | Bytes bs \<Rightarrow>
          if length bs = calcsize fs then Inr (unpack_all e fs bs) else Inl StructError)"

text \<open>
  \<^verbatim>\<open>struct.pack('<' + fmt, *values)\<close>: little-endian only, which is all the transcoder
  writes. An integer out of the range of its format is a \<^verbatim>\<open>struct.error\<close>.
\<close>

fun pack1 :: "fmt \<Rightarrow> pyval \<Rightarrow> error + byte list" where
  "pack1 Ff (PFloat n) = Inr (nat_le 4 n)"
| "pack1 Fd (PFloat n) = Inr (nat_le 8 n)"
| "pack1 Fi (PInt i) =
     (if - (2 ^ 31) \<le> i \<and> i < 2 ^ 31 then Inr (nat_le 4 (nat (i mod 2 ^ 32))) else Inl StructError)"
| "pack1 Fq (PInt i) =
     (if - (2 ^ 63) \<le> i \<and> i < 2 ^ 63 then Inr (nat_le 8 (nat (i mod 2 ^ 64))) else Inl StructError)"
| "pack1 f (PInt i) =
     (if 0 \<le> i \<and> i < 2 ^ (8 * fmt_size f) then Inr (nat_le (fmt_size f) (nat i))
      else Inl StructError)"
| "pack1 f (PFloat n) = Inl StructError"

fun pack :: "fmt list \<Rightarrow> pyval list \<Rightarrow> error + byte list" where
  "pack [] [] = Inr []"
| "pack (f # fs) (v # vs) =
     (case pack1 f v of
        Inl err \<Rightarrow> Inl err
      | Inr bs \<Rightarrow> (case pack fs vs of Inl err \<Rightarrow> Inl err | Inr rest \<Rightarrow> Inr (bs @ rest)))"
| "pack fs vs = Inl StructError"

section \<open>File objects\<close>

text \<open>The TIFF file opened for reading: its bytes and the read position.\<close>

record tfile =
  tdata :: "byte list"
  tpos :: nat

definition tread :: "nat \<Rightarrow> tfile \<Rightarrow> byte list \<times> tfile" where
  "tread n f =
     (let bs = take n (drop (tpos f) (tdata f)) in (bs, f\<lparr>tpos := tpos f + length bs\<rparr>))"

definition tseek :: "nat \<Rightarrow> tfile \<Rightarrow> tfile" where
  "tseek p f = f\<lparr>tpos := p\<rparr>"

text \<open>
  \<^verbatim>\<open>io.BytesIO\<close>: a write at a position past the end fills the gap with zero bytes, a
  write inside the buffer overwrites.
\<close>

record bytesio =
  bbuf :: "byte list"
  bpos :: nat

definition bwrite :: "byte list \<Rightarrow> bytesio \<Rightarrow> bytesio" where
  "bwrite bs b =
     (if bs = [] then b
      else let padded = bbuf b @ replicate (bpos b - length (bbuf b)) 0
           in \<lparr>bbuf = take (bpos b) padded @ bs @ drop (bpos b + length bs) padded,
               bpos = bpos b + length bs\<rparr>)"

definition bseek :: "nat \<Rightarrow> bytesio \<Rightarrow> bytesio" where
  "bseek p b = b\<lparr>bpos := p\<rparr>"

section \<open>The metadata transcoder\<close>

text \<open>The table \<^verbatim>\<open>tag_dtype\<close>: format and \<^verbatim>\<open>nbytes\<close> of each TIFF type code.\<close>

definition tag_dtype :: "nat \<Rightarrow> (fmt list \<times> nat) option" where
  "tag_dtype c =
     (if c = 1 then Some ([FB], 1)
      else if c = 2 then Some ([FB], 1)
      else if c = 3 then Some ([FH], 2)
      else if c = 4 then Some ([FI], 4)
      else if c = 5 then Some ([FI, FI], 8)
      else if c = 7 then Some ([FB], 1)
      else if c = 9 then Some ([Fi], 4)
      else if c = 10 then Some ([Fi, Fi], 8)
      else if c = 11 then Some ([Ff], 4)
      else if c = 12 then Some ([Fd], 8)
      else if c = 13 then Some ([FI], 4)
      else if c = 16 then Some ([FQ], 8)
      else if c = 17 then Some ([Fq], 8)
      else if c = 18 then Some ([FQ], 8)
      else None)"

text \<open>An exception ends the computation: the rest runs on the value of a successful step.\<close>

definition bind :: "'x + 'v \<Rightarrow> ('v \<Rightarrow> 'x + 'w) \<Rightarrow> 'x + 'w" where
  "bind m rest = (case m of Inl err \<Rightarrow> Inl err | Inr v \<Rightarrow> rest v)"

text \<open>
  \<^verbatim>\<open>_process_header\<close>. The message of the \<^verbatim>\<open>RuntimeError\<close> is an f-string that reads
  the name \<^verbatim>\<open>read_buffer\<close>, which is bound nowhere in the module: evaluating the message
  raises \<^verbatim>\<open>NameError\<close> before the \<^verbatim>\<open>raise\<close> statement is reached.
\<close>

definition byte_order :: "pyval list \<Rightarrow> error + endian" where
  "byte_order data =
     (if data ! 0 = PInt 73 \<and> data ! 1 = PInt 73 then Inr Little
      else if data ! 0 = PInt 77 \<and> data ! 1 = PInt 77 then Inr Big
      else Inl (NameError ''read_buffer''))"

definition process_header :: "bytesio \<Rightarrow> tfile \<Rightarrow> error + (endian \<times> bytesio \<times> tfile)" where
  "process_header b tfp =
     (case tread 8 tfp of (buffer, tfp) \<Rightarrow>
      bind (unpack Little [FB, FB] (Bytes (take 2 buffer))) (\<lambda>data.
      bind (byte_order data) (\<lambda>endian.
      bind (unpack endian [FH, FI] (Bytes (take 6 (drop 2 buffer)))) (\<lambda>vo.
      case vo of
        [version, PInt offset] \<Rightarrow>
          bind (pack [FB, FB, FH, FI] [PInt 73, PInt 73, PInt 42, PInt 8]) (\<lambda>data.
          Inr (endian, bwrite data b, tseek (nat offset) tfp))
      | other \<Rightarrow> Inl TypeError))))"

text \<open>
  The body of the loop of \<^verbatim>\<open>_process_tags\<close>, for the entry \<open>idx\<close>. The state is the
  output buffer \<open>b\<close>, the source file \<open>tfp\<close> and \<^verbatim>\<open>after_ifd_position\<close>.
  \<^verbatim>\<open>buffer\<close> holds the entries of the source directory, \<open>start\<close> is
  \<^verbatim>\<open>start_of_tags_position\<close>. The two branches of \<^verbatim>\<open>if payload_length > 4\<close> are
  \<open>outline_tag\<close> and \<open>inline_tag\<close>.
\<close>

type_synonym tagstate = "bytesio \<times> tfile \<times> nat"

definition outline_tag ::
  "endian \<Rightarrow> int \<Rightarrow> int \<Rightarrow> int \<Rightarrow> fmt list \<Rightarrow> nat \<Rightarrow> byte list \<Rightarrow> tagstate \<Rightarrow> error + tagstate" where
  "outline_tag endianness tag dtype nvalues format payload_length tag_data st =
     (case st of (b, tfp, after_ifd_position) \<Rightarrow>
      bind (unpack endianness [FI] (Bytes (drop 8 tag_data))) (\<lambda>vs.
      case vs of
        [PInt offset] \<Rightarrow>
          let current_position = tpos tfp;
              rd = tread payload_length (tseek (nat offset) tfp);
              payload_buffer = fst rd;
              tfp = tseek current_position (snd rd);
              payload_format = concat (replicate (nat nvalues) format)
          in bind (unpack endianness payload_format (Bytes payload_buffer)) (\<lambda>payload.
             let new_offset = after_ifd_position in
             bind (pack [FH, FH, FI, FI]
                     [PInt tag, PInt dtype, PInt nvalues, PInt (int new_offset)]) (\<lambda>outbuffer.
             let b = bwrite outbuffer b;
                 cpos = bpos b;
                 b = bseek new_offset b
             in bind (pack payload_format payload) (\<lambda>outbuffer.
                let b = bwrite outbuffer b;
                    after_ifd_position = bpos b;
                    b = bseek cpos b
                in Inr (b, tfp, after_ifd_position))))
      | other \<Rightarrow> Inl TypeError))"

text \<open>
  The choice of \<^verbatim>\<open>payload_buffer\<close> in the inline branch. \<^verbatim>\<open>tag_data[8]\<close> is a single
  index into a bytes object: an int (an \<^verbatim>\<open>IndexError\<close> when there is no ninth byte).
\<close>

definition inline_buffer :: "nat \<Rightarrow> int \<Rightarrow> byte list \<Rightarrow> error + pyobj" where
  "inline_buffer nbytes nvalues tag_data =
     (if nbytes * nat nvalues = 1 then
        (if 8 < length tag_data then Inr (IntObj (uint (tag_data ! 8))) else Inl IndexError)
      else if nbytes * nat nvalues = 2 then Inr (Bytes (take 2 (drop 8 tag_data)))
      else Inr (Bytes (drop 8 tag_data)))"

definition inline_tag ::
  "endian \<Rightarrow> int \<Rightarrow> int \<Rightarrow> int \<Rightarrow> fmt list \<Rightarrow> nat \<Rightarrow> byte list \<Rightarrow> tagstate \<Rightarrow> error + tagstate" where
  "inline_tag endianness tag dtype nvalues format nbytes tag_data st =
     (case st of (b, tfp, after_ifd_position) \<Rightarrow>
      bind (inline_buffer nbytes nvalues tag_data) (\<lambda>payload_buffer.
      let payload_format = concat (replicate (nat nvalues) format) in
      bind (unpack endianness payload_format payload_buffer) (\<lambda>payload.
      bind (pack [FH, FH, FI] [PInt tag, PInt dtype, PInt nvalues]) (\<lambda>outbuffer.
      let b = bwrite outbuffer b;
          payload_format = (if payload_format \<in> set [[FH], [FB]] then [FI] else payload_format)
      in bind (pack payload_format payload) (\<lambda>outbuffer.
         Inr (bwrite outbuffer b, tfp, after_ifd_position))))))"

definition process_tag :: "endian \<Rightarrow> byte list \<Rightarrow> nat \<Rightarrow> nat \<Rightarrow> tagstate \<Rightarrow> error + tagstate" where
  "process_tag endianness buffer start idx st =
     (case st of (b, tfp, after_ifd_position) \<Rightarrow>
      let b = bseek (start + idx * 12) b;
          tag_data = take 12 (drop (idx * 12) buffer)
      in bind (unpack endianness [FH, FH, FI] (Bytes (take 8 tag_data))) (\<lambda>vs.
         case vs of
           [PInt tag, PInt dtype, PInt nvalues] \<Rightarrow>
             (case tag_dtype (nat dtype) of
                None \<Rightarrow> Inl (KeyError (nat dtype))
              | Some (format, nbytes) \<Rightarrow>
                  let payload_length = nbytes * nat nvalues in
                  if payload_length > 4 then
                    outline_tag endianness tag dtype nvalues format payload_length tag_data
                      (b, tfp, after_ifd_position)
                  else
                    inline_tag endianness tag dtype nvalues format nbytes tag_data
                      (b, tfp, after_ifd_position))
         | other \<Rightarrow> Inl TypeError))"

text \<open>The \<^verbatim>\<open>for idx in range(num_tags)\<close> loop: the first exception ends it.\<close>

fun tags_loop :: "endian \<Rightarrow> byte list \<Rightarrow> nat \<Rightarrow> nat list \<Rightarrow> tagstate \<Rightarrow> error + tagstate" where
  "tags_loop endianness buffer start [] st = Inr st"
| "tags_loop endianness buffer start (idx # idxs) st =
     bind (process_tag endianness buffer start idx st) (tags_loop endianness buffer start idxs)"

definition process_tags :: "bytesio \<Rightarrow> tfile \<Rightarrow> endian \<Rightarrow> error + (bytesio \<times> tfile)" where
  "process_tags b tfp endianness =
     (case tread 2 tfp of (buffer, tfp) \<Rightarrow>
      bind (unpack endianness [FH] (Bytes buffer)) (\<lambda>vs.
      case vs of
        [PInt num_tags] \<Rightarrow>
          bind (pack [FH] [PInt num_tags]) (\<lambda>write_buffer.
          let b = bwrite write_buffer b in
          case tread (nat num_tags * 12) tfp of (buffer, tfp) \<Rightarrow>
            let start_of_tags_position = bpos b;
                after_ifd_position = start_of_tags_position + length buffer
            in bind (tags_loop endianness buffer start_of_tags_position
                       [0 ..< nat num_tags] (b, tfp, after_ifd_position)) (\<lambda>st.
               Inr (fst st, fst (snd st))))
      | other \<Rightarrow> Inl TypeError))"

text \<open>
  \<^verbatim>\<open>copy_metadata\<close>, up to the construction of the UUID box: the result is the triple
  handed to \<^verbatim>\<open>UUIDBox\<close>, that is the 16 bytes of the identifier, the payload and the
  declared box length. The argument is the content of the TIFF file.
\<close>

definition copy_metadata :: "byte list \<Rightarrow> error + (byte list \<times> byte list \<times> nat)" where
  "copy_metadata tiff_bytes =
     (let uuid = bytes_of ''JpgTiffExif->JP2'';
          b = \<lparr>bbuf = [], bpos = 0\<rparr>;
          tfp = \<lparr>tdata = tiff_bytes, tpos = 0\<rparr>
      in bind (process_header b tfp) (\<lambda>hd.
         case hd of (endian, b, tfp) \<Rightarrow>
           bind (process_tags b tfp endian) (\<lambda>bt.
           let payload = bytes_of ''EXIF'' @ [0, 0] @ bbuf (fst bt);
               box_length = length payload + 8
           in Inr (uuid, payload, box_length))))"

section \<open>numpy arrays\<close>

text \<open>
  An array of shape (rows, columns, samples) is a list of rows, a row a list of pixels, a
  pixel the list of its samples. A slice is a pair of Python ints (start, stop), with
  step 1; \<open>slice_index\<close> is the clamping that Python applies to a slice bound for a
  sequence of length \<open>n\<close> (a negative bound counts from the end).
\<close>

type_synonym pixel = "nat list"
type_synonym image = "pixel list list"
type_synonym slice = "int \<times> int"
type_synonym shape = "nat \<times> nat \<times> nat"

definition zeros :: "shape \<Rightarrow> image" where
  "zeros s = (case s of (h, w, c) \<Rightarrow> replicate h (replicate w (replicate c 0)))"

definition slice_index :: "nat \<Rightarrow> int \<Rightarrow> nat" where
  "slice_index n i = (if i < 0 then nat (max 0 (int n + i)) else min n (nat i))"

definition slice_start :: "nat \<Rightarrow> slice \<Rightarrow> nat" where
  "slice_start n s = slice_index n (fst s)"

definition slice_len :: "nat \<Rightarrow> slice \<Rightarrow> nat" where
  "slice_len n s = slice_index n (snd s) - slice_index n (fst s)"

definition getslice :: "slice \<Rightarrow> 'a list \<Rightarrow> 'a list" where
  "getslice s xs = take (slice_len (length xs) s) (drop (slice_start (length xs) s) xs)"

text \<open>
  \<^verbatim>\<open>dst[drows, dcols, :] = value\<close>. numpy broadcasts the value to the shape of the
  selected region: every dimension of the value must equal that of the region or be 1,
  else the assignment raises \<^verbatim>\<open>ValueError\<close>. The shapes are arguments: \<open>dshape\<close> is
  the shape of \<open>dst\<close>, \<open>vshape\<close> the shape of \<open>val\<close>.
\<close>

definition broadcastable :: "nat \<Rightarrow> nat \<Rightarrow> bool" where
  "broadcastable v d = (v = d \<or> v = 1)"

definition bcast_index :: "nat \<Rightarrow> nat \<Rightarrow> nat" where
  "bcast_index v i = (if v = 1 then 0 else i)"

definition bcast_pixel :: "nat \<Rightarrow> nat \<Rightarrow> pixel \<Rightarrow> pixel" where
  "bcast_pixel vc dc p = (if vc = dc then p else replicate dc (p ! 0))"

definition setitem :: "shape \<Rightarrow> slice \<Rightarrow> slice \<Rightarrow> image \<Rightarrow> shape \<Rightarrow> image \<Rightarrow> error + image" where
  "setitem dshape drows dcols dst vshape val =
     (case dshape of (dh, dw, dc) \<Rightarrow>
      case vshape of (vh, vw, vc) \<Rightarrow>
        let r0 = slice_start dh drows; lr = slice_len dh drows;
            c0 = slice_start dw dcols; lc = slice_len dw dcols
        in if broadcastable vh lr \<and> broadcastable vw lc \<and> broadcastable vc dc then
             Inr (map (\<lambda>i.
                    if r0 \<le> i \<and> i < r0 + lr then
                      map (\<lambda>j.
                        if c0 \<le> j \<and> j < c0 + lc then
                          bcast_pixel vc dc (val ! bcast_index vh (i - r0) ! bcast_index vw (j - c0))
                        else dst ! i ! j) [0 ..< dw]
                    else dst ! i) [0 ..< dh])
           else Inl ValueError)"

section \<open>The source reader and the destination writer\<close>

text \<open>
  \<^verbatim>\<open>glymur.lib.tiff\<close> is not part of the sources at hand. Its enumerations are the TIFF
  ones; the values that \<^verbatim>\<open>getFieldDefaulted\<close>, \<^verbatim>\<open>isTiled\<close>, \<^verbatim>\<open>numberOfStrips\<close>
  and \<^verbatim>\<open>RGBAImageOK\<close> return for the open file, and the functions that compute tile
  and strip numbers and read pixel data, are the fields of the record \<open>tiff\<close>. A read
  function takes the buffer it is given and returns the buffer after the read.
\<close>

datatype sample_format = UINT | INT_sf | IEEEFP | VOID | COMPLEXINT | COMPLEXIEEEP

datatype photometric =
  MINISWHITE | MINISBLACK | RGB | PALETTE | MASK | SEPARATED | YCBCR | CIELAB | ICCLAB | ITULAB

fun sample_format_name :: "sample_format \<Rightarrow> string" where
  "sample_format_name UINT = ''UINT''"
| "sample_format_name INT_sf = ''INT''"
| "sample_format_name IEEEFP = ''IEEEFP''"
| "sample_format_name VOID = ''VOID''"
| "sample_format_name COMPLEXINT = ''COMPLEXINT''"
| "sample_format_name COMPLEXIEEEP = ''COMPLEXIEEEP''"

datatype read_call =
    ReadEncodedTile nat
  | ReadRGBATile nat nat
  | ReadEncodedStrip nat
  | ReadRGBAStrip nat
  | ReadRGBAImageOriented

record tiff =
  isTiled :: bool
  Photometric :: photometric
  ImageWidth :: nat
  ImageLength :: nat
  SamplesPerPixel :: nat
  SampleFormat :: sample_format
  BitsPerSample :: nat
  TileWidth :: nat
  TileLength :: nat
  RowsPerStrip :: nat
  numberOfStrips :: nat
  RGBAImageOK :: bool
  computeTile :: "nat \<Rightarrow> nat \<Rightarrow> nat"
  computeStrip :: "nat \<Rightarrow> nat"
  readEncodedTile :: "nat \<Rightarrow> image \<Rightarrow> image"
  readRGBATile :: "nat \<Rightarrow> nat \<Rightarrow> image \<Rightarrow> image"
  readEncodedStrip :: "nat \<Rightarrow> image \<Rightarrow> image"
  readRGBAStrip :: "nat \<Rightarrow> image \<Rightarrow> image"
  readRGBAImageOriented :: image

text \<open>
  \<^verbatim>\<open>int(np.ceil(a / b))\<close> and the test \<^verbatim>\<open>(a / b) != (a // b)\<close>, for Python ints
  \<open>a\<close> and \<open>b \<noteq> 0\<close>. The true division is taken exactly; it is a float division in the
  code, which gives the same ceiling and the same test for operands below \<open>2 ^ 53\<close>
  (TIFF dimensions are 32-bit).
\<close>

definition np_ceil_div :: "nat \<Rightarrow> nat \<Rightarrow> nat" where
  "np_ceil_div a b = nat \<lceil>(of_nat a :: rat) / of_nat b\<rceil>"

definition true_div_ne_floor_div :: "nat \<Rightarrow> nat \<Rightarrow> bool" where
  "true_div_ne_floor_div a b = ((of_nat a :: rat) / of_nat b \<noteq> of_nat (a div b))"

text \<open>
  Modelled from the spec: \<^verbatim>\<open>Jp2k.get_tilewriters\<close> is not part of the sources at hand.
  By sections 3 and 6 the destination writer exposes one tile-write slot per tile of the
  destination grid, in row-major order, the grid having \<open>ceil(height / jth)\<close> rows and
  \<open>ceil(width / jtw)\<close> columns. The slots are numbered as \<^verbatim>\<open>enumerate\<close> numbers them.
\<close>

definition get_tilewriters :: "nat \<Rightarrow> nat \<Rightarrow> nat \<Rightarrow> nat \<Rightarrow> nat list" where
  "get_tilewriters imageheight imagewidth jth jtw =
     [0 ..< np_ceil_div imageheight jth * np_ceil_div imagewidth jtw]"

section \<open>The raster remapper\<close>

text \<open>
  The decimal numeral of a Python int in an f-string.
\<close>

function str_nat :: "nat \<Rightarrow> string" where
  "str_nat n =
     (if n < 10 then [char_of (48 + n)] else str_nat (n div 10) @ [char_of (48 + n mod 10)])"
  by pat_completeness auto
termination
  by (relation "measure id") auto

text \<open>
  Lines 272 to 276: the grid dimensions that \<^verbatim>\<open>copy_image\<close> computes for itself,
  \<^verbatim>\<open>(num_jp2k_tile_rows, num_jp2k_tile_cols)\<close>. Both are computed from
  \<^verbatim>\<open>imagewidth / jtw\<close>.
\<close>

definition grid_dimensions :: "nat \<Rightarrow> nat \<Rightarrow> nat \<Rightarrow> nat \<Rightarrow> nat \<times> nat" where
  "grid_dimensions imagewidth imageheight jth jtw =
     (let num_jp2k_tile_rows = np_ceil_div imagewidth jtw;
          num_jp2k_tile_cols = np_ceil_div imagewidth jtw
      in (num_jp2k_tile_rows, num_jp2k_tile_cols))"

text \<open>
  The local variables of \<^verbatim>\<open>copy_image\<close> that the tile loops assign. \<open>None\<close> is a
  name that is not bound yet. \<open>reads\<close> is the sequence of calls of the reader's read
  functions so far.
\<close>

record vars =
  jp2k_tile :: image
  tiff_tile :: image
  rgba_tile :: image
  tiff_strip :: image
  rgba_strip :: image
  jrows :: "slice option"
  jcols :: "slice option"
  ulc :: "nat option"
  stripnum :: "nat option"
  reads :: "read_call list"

type_synonym 'a outcome = "(error \<times> read_call list) + 'a"

text \<open>
  \<^verbatim>\<open>slice(ul % n, (lr - 1) % n + 1)\<close>: the image-space interval from \<open>ul\<close> to \<open>lr\<close> in
  the coordinates of a tile or strip of size \<open>n\<close>.
\<close>

definition local_slice :: "nat \<Rightarrow> nat \<Rightarrow> nat \<Rightarrow> slice" where
  "local_slice ul lr n = (int ul mod int n, (int lr - 1) mod int n + 1)"

subsection \<open>Tiled source\<close>

text \<open>
  The inner \<^verbatim>\<open>while\<close> loop of the tiled branch (lines 354 to 403), over the TIFF tiles
  that meet the JPEG 2000 tile from left to right. \<open>ntc\<close> is
  \<^verbatim>\<open>num_tiff_tile_cols\<close>. The callers have divided by \<open>jth\<close> and \<open>jtw\<close> before.
\<close>

function tiled_cols ::
  "tiff \<Rightarrow> bool \<Rightarrow> nat \<Rightarrow> nat \<Rightarrow> nat \<Rightarrow> nat \<Rightarrow> nat \<Rightarrow> nat \<Rightarrow> nat \<Rightarrow> nat \<Rightarrow> nat \<Rightarrow> nat \<Rightarrow> vars
     \<Rightarrow> vars outcome" where
  "tiled_cols t use_rgba_interface ntc jth jtw julr julc r c tilenum tulr tulc st =
     (if TileWidth t = 0 then Inl (ZeroDivisionError, reads st)
      else if (c div TileWidth t) * TileWidth t < min (julc + jtw) (ImageWidth t) then
        (let th = TileLength t; tw = TileWidth t; spp = SamplesPerPixel t;
             st = (if use_rgba_interface then
                     (let rg = readRGBATile t tulc tulr (rgba_tile st)
                      in st\<lparr>rgba_tile := rg, tiff_tile := rev (map (map (take 3)) rg),
                            reads := reads st @ [ReadRGBATile tulc tulr]\<rparr>)
                   else st\<lparr>tiff_tile := readEncodedTile t tilenum (tiff_tile st),
                            reads := reads st @ [ReadEncodedTile tilenum]\<rparr>);
             ulr = max julr tulr;
             llr = min (julr + jth) (tulr + th);
             ulc = max julc tulc;
             urc = min (julc + jtw) (tulc + tw);
             jrows = local_slice ulr llr jth;
             jcols = local_slice ulc urc jtw;
             trows = local_slice ulr llr th;
             tcols = local_slice ulc urc tw;
             st = st\<lparr>jrows := Some jrows, jcols := Some jcols, vars.ulc := Some ulc\<rparr>
         in case setitem (jth, jtw, spp) jrows jcols (jp2k_tile st)
                   (slice_len th trows, slice_len tw tcols, if use_rgba_interface then 3 else spp)
                   (map (getslice tcols) (getslice trows (tiff_tile st))) of
              Inl err \<Rightarrow> Inl (err, reads st)
            | Inr tile \<Rightarrow>
                (let st = st\<lparr>jp2k_tile := tile\<rparr>;
                     c = c + tw;
                     tilenum = computeTile t c r
                 in if ntc = 0 then Inl (ZeroDivisionError, reads st)
                    else tiled_cols t use_rgba_interface ntc jth jtw julr julc r c tilenum
                           ((tilenum div ntc) * th) ((tilenum mod ntc) * tw) st))
      else Inr st)"
  by pat_completeness auto
termination
  by (relation "measure (\<lambda>(t, u, ntc, jth, jtw, julr, julc, r, c, tilenum, tulr, tulc, st).
        min (julc + jtw) (ImageWidth t) - (c div TileWidth t) * TileWidth t)") auto

text \<open>
  The outer \<^verbatim>\<open>while\<close> loop of the tiled branch (lines 340 to 405), over the rows of
  TIFF tiles that meet the JPEG 2000 tile.
\<close>

function tiled_rows ::
  "tiff \<Rightarrow> bool \<Rightarrow> nat \<Rightarrow> nat \<Rightarrow> nat \<Rightarrow> nat \<Rightarrow> nat \<Rightarrow> nat \<Rightarrow> vars \<Rightarrow> vars outcome" where
  "tiled_rows t use_rgba_interface ntc jth jtw julr julc r st =
     (if TileLength t = 0 then Inl (ZeroDivisionError, reads st)
      else if (r div TileLength t) * TileLength t < min (julr + jth) (ImageLength t) then
        (let c = julc;
             tilenum = computeTile t c r
         in if ntc = 0 then Inl (ZeroDivisionError, reads st)
            else
              case tiled_cols t use_rgba_interface ntc jth jtw julr julc r c tilenum
                     ((tilenum div ntc) * TileLength t) ((tilenum mod ntc) * TileWidth t) st of
                Inl err \<Rightarrow> Inl err
              | Inr st' \<Rightarrow>
                  tiled_rows t use_rgba_interface ntc jth jtw julr julc (r + TileLength t) st')
      else Inr st)"
  by pat_completeness auto
termination
  by (relation "measure (\<lambda>(t, u, ntc, jth, jtw, julr, julc, r, st).
        min (julr + jth) (ImageLength t) - (r div TileLength t) * TileLength t)") auto

text \<open>
  The crop of a tile in the last column or row (lines 407 to 419). The slices used are
  \<^verbatim>\<open>jcols\<close> and \<^verbatim>\<open>jrows\<close> as the loops left them; \<^verbatim>\<open>last_j2k_cols\<close> and
  \<^verbatim>\<open>last_j2k_rows\<close> are computed (which reads \<^verbatim>\<open>ulc\<close> and \<^verbatim>\<open>llr\<close>) and not used.
\<close>

definition tiled_crop :: "nat \<Rightarrow> nat \<Rightarrow> bool \<Rightarrow> bool \<Rightarrow> nat \<Rightarrow> nat \<Rightarrow> vars \<Rightarrow> vars outcome" where
  "tiled_crop num_jp2k_tile_rows num_jp2k_tile_cols partial_jp2_tile_rows partial_jp2_tile_cols
      jp2k_tile_row jp2k_tile_col st =
     bind (if partial_jp2_tile_cols \<and> int jp2k_tile_col = int num_jp2k_tile_cols - 1 then
             (case jcols st of
                None \<Rightarrow> Inl (NameError ''ulc'', reads st)
              | Some jc \<Rightarrow> Inr (st\<lparr>jp2k_tile := map (getslice jc) (jp2k_tile st)\<rparr>))
           else Inr st) (\<lambda>st.
     if partial_jp2_tile_rows \<and> int jp2k_tile_row = int num_jp2k_tile_rows - 1 then
       (case jrows st of
          None \<Rightarrow> Inl (NameError ''llr'', reads st)
        | Some jr \<Rightarrow> Inr (st\<lparr>jp2k_tile := getslice jr (jp2k_tile st)\<rparr>))
     else Inr st)"

text \<open>
  The body of the \<^verbatim>\<open>for idx, tilewriter\<close> loop of the tiled branch, up to the tile
  that is assigned to the tile writer: it is \<open>jp2k_tile\<close> of the result.
\<close>

definition tiled_tile ::
  "tiff \<Rightarrow> bool \<Rightarrow> nat \<Rightarrow> nat \<Rightarrow> nat \<Rightarrow> bool \<Rightarrow> bool \<Rightarrow> nat \<Rightarrow> nat \<Rightarrow> nat \<Rightarrow> vars \<Rightarrow> vars outcome" where
  "tiled_tile t use_rgba_interface ntc num_jp2k_tile_rows num_jp2k_tile_cols
      partial_jp2_tile_rows partial_jp2_tile_cols jth jtw idx st =
     (let st = st\<lparr>jp2k_tile := zeros (jth, jtw, SamplesPerPixel t),
                   tiff_tile := zeros (TileLength t, TileWidth t, SamplesPerPixel t)\<rparr>
      in if num_jp2k_tile_cols = 0 then Inl (ZeroDivisionError, reads st)
         else
           (let jp2k_tile_row = idx div num_jp2k_tile_cols;
                jp2k_tile_col = idx mod num_jp2k_tile_cols;
                julr = jp2k_tile_row * jth;
                julc = jp2k_tile_col * jtw
            in bind (tiled_rows t use_rgba_interface ntc jth jtw julr julc julr st)
                 (tiled_crop num_jp2k_tile_rows num_jp2k_tile_cols
                    partial_jp2_tile_rows partial_jp2_tile_cols jp2k_tile_row jp2k_tile_col)))"

text \<open>
  \<^verbatim>\<open>for idx, tilewriter in enumerate(jp2.get_tilewriters())\<close>, ending each round with
  \<^verbatim>\<open>tilewriter[:] = jp2k_tile\<close>: the result is the list of the tiles handed to the
  writer, in order, and the reads performed.
\<close>

fun tile_loop ::
  "(nat \<Rightarrow> vars \<Rightarrow> vars outcome) \<Rightarrow> nat list \<Rightarrow> vars \<Rightarrow> image list
     \<Rightarrow> (image list \<times> read_call list) outcome" where
  "tile_loop body [] st written = Inr (written, reads st)"
| "tile_loop body (idx # idxs) st written =
     bind (body idx st) (\<lambda>st'. tile_loop body idxs st' (written @ [jp2k_tile st']))"

definition tiled_branch ::
  "tiff \<Rightarrow> bool \<Rightarrow> nat \<times> nat \<Rightarrow> nat \<Rightarrow> nat \<Rightarrow> vars \<Rightarrow> (image list \<times> read_call list) outcome" where
  "tiled_branch t use_rgba_interface grid jth jtw st =
     (case grid of (num_jp2k_tile_rows, num_jp2k_tile_cols) \<Rightarrow>
      if TileWidth t = 0 \<or> jth = 0 then Inl (ZeroDivisionError, reads st)
      else
        (let num_tiff_tile_cols = np_ceil_div (ImageWidth t) (TileWidth t);
             partial_jp2_tile_rows = true_div_ne_floor_div (ImageLength t) jth;
             partial_jp2_tile_cols = true_div_ne_floor_div (ImageWidth t) jtw;
             st = st\<lparr>rgba_tile := zeros (TileLength t, TileWidth t, 4)\<rparr>
         in tile_loop
              (tiled_tile t use_rgba_interface num_tiff_tile_cols num_jp2k_tile_rows
                 num_jp2k_tile_cols partial_jp2_tile_rows partial_jp2_tile_cols jth jtw)
              (get_tilewriters (ImageLength t) (ImageWidth t) jth jtw) st []))"

subsection \<open>Striped source\<close>

text \<open>
  The \<^verbatim>\<open>while\<close> loop of the striped branch (lines 454 to 502), over the strips that
  meet the JPEG 2000 tile. The \<^verbatim>\<open>break\<close> leaves the loop with \<^verbatim>\<open>stripnum\<close> assigned.
  \<^verbatim>\<open>tw\<close> is the image width here.
\<close>

function strip_rows ::
  "tiff \<Rightarrow> bool \<Rightarrow> nat \<Rightarrow> nat \<Rightarrow> nat \<Rightarrow> nat \<Rightarrow> nat \<Rightarrow> vars \<Rightarrow> vars outcome" where
  "strip_rows t use_rgba_interface jth jtw julr julc r st =
     (if RowsPerStrip t = 0 then Inl (ZeroDivisionError, reads st)
      else if (r div RowsPerStrip t) * RowsPerStrip t < min (julr + jth) (ImageLength t) then
        (let rps = RowsPerStrip t; tw = ImageWidth t; spp = SamplesPerPixel t;
             num_strips = numberOfStrips t;
             sn = computeStrip t r;
             st = st\<lparr>stripnum := Some sn\<rparr>
         in if sn \<ge> num_strips then Inr st
            else
              (let st = (if use_rgba_interface then
                           (let rg = readRGBAStrip t (sn * rps) (rgba_strip st)
                            in st\<lparr>rgba_strip := rg, tiff_strip := rev (map (map (take spp)) rg),
                                  reads := reads st @ [ReadRGBAStrip (sn * rps)]\<rparr>)
                         else st\<lparr>tiff_strip := readEncodedStrip t sn (tiff_strip st),
                                  reads := reads st @ [ReadEncodedStrip sn]\<rparr>);
                   tulr = sn * rps;
                   tulc = 0;
                   ulr = max julr tulr;
                   llr = min (julr + jth) (tulr + rps);
                   ulc = max julc tulc;
                   urc = min (julc + jtw) (tulc + tw);
                   jrows = local_slice ulr llr jth;
                   jcols = local_slice ulc urc jtw;
                   trows = local_slice ulr llr rps;
                   st = st\<lparr>jrows := Some jrows, jcols := Some jcols, vars.ulc := Some ulc\<rparr>
               in if tw = 0 then Inl (ZeroDivisionError, reads st)
                  else
                    (let tcols = local_slice ulc urc tw
                     in case setitem (jth, jtw, spp) jrows jcols (jp2k_tile st)
                               (slice_len rps trows, slice_len tw tcols,
                                if use_rgba_interface then min spp 4 else spp)
                               (map (getslice tcols) (getslice trows (tiff_strip st))) of
                          Inl err \<Rightarrow> Inl (err, reads st)
                        | Inr tile \<Rightarrow>
                            strip_rows t use_rgba_interface jth jtw julr julc (r + rps)
                              (st\<lparr>jp2k_tile := tile\<rparr>))))
      else Inr st)"
  by pat_completeness auto
termination
  by (relation "measure (\<lambda>(t, u, jth, jtw, julr, julc, r, st).
        min (julr + jth) (ImageLength t) - (r div RowsPerStrip t) * RowsPerStrip t)") auto

text \<open>The crop of a tile in the last column or at the last strip (lines 507 to 523).\<close>

definition strip_crop :: "tiff \<Rightarrow> nat \<Rightarrow> bool \<Rightarrow> bool \<Rightarrow> nat \<Rightarrow> nat \<Rightarrow> nat \<Rightarrow> vars \<Rightarrow> vars outcome" where
  "strip_crop t num_jp2k_tile_cols partial_jp2_tile_rows partial_jp2_tile_cols jtw
      jp2k_tile_col julr st =
     bind (if partial_jp2_tile_cols \<and> int jp2k_tile_col = int num_jp2k_tile_cols - 1 then
             (case ulc st of
                None \<Rightarrow> Inl (NameError ''ulc'', reads st)
              | Some u \<Rightarrow>
                  (let last_j2k_cols = (0, int jtw - (int u + int jtw - int (ImageWidth t)))
                   in Inr (st\<lparr>jp2k_tile := map (getslice last_j2k_cols) (jp2k_tile st)\<rparr>)))
           else Inr st) (\<lambda>st.
     if partial_jp2_tile_rows then
       (case stripnum st of
          None \<Rightarrow> Inl (NameError ''stripnum'', reads st)
        | Some sn \<Rightarrow>
            if int sn = int (numberOfStrips t) - 1 then
              (let last_j2k_rows = (0, int (ImageLength t) - int julr)
               in Inr (st\<lparr>jp2k_tile := getslice last_j2k_rows (jp2k_tile st)\<rparr>))
            else Inr st)
     else Inr st)"

definition strip_tile ::
  "tiff \<Rightarrow> bool \<Rightarrow> nat \<Rightarrow> bool \<Rightarrow> bool \<Rightarrow> nat \<Rightarrow> nat \<Rightarrow> nat \<Rightarrow> vars \<Rightarrow> vars outcome" where
  "strip_tile t use_rgba_interface num_jp2k_tile_cols partial_jp2_tile_rows partial_jp2_tile_cols
      jth jtw idx st =
     (let st = st\<lparr>jp2k_tile := zeros (jth, jtw, SamplesPerPixel t)\<rparr>
      in if num_jp2k_tile_cols = 0 then Inl (ZeroDivisionError, reads st)
         else
           (let jp2k_tile_row = idx div num_jp2k_tile_cols;
                jp2k_tile_col = idx mod num_jp2k_tile_cols;
                julr = jp2k_tile_row * jth;
                julc = jp2k_tile_col * jtw
            in bind (strip_rows t use_rgba_interface jth jtw julr julc julr st)
                 (strip_crop t num_jp2k_tile_cols partial_jp2_tile_rows partial_jp2_tile_cols
                    jtw jp2k_tile_col julr)))"

definition striped_branch ::
  "tiff \<Rightarrow> bool \<Rightarrow> nat \<Rightarrow> nat \<Rightarrow> vars \<Rightarrow> (image list \<times> read_call list) outcome" where
  "striped_branch t use_rgba_interface jth jtw st =
     (if jth = 0 then Inl (ZeroDivisionError, reads st)
      else
        (let num_jp2k_tile_cols = np_ceil_div (ImageWidth t) jtw;
             partial_jp2_tile_rows = true_div_ne_floor_div (ImageLength t) jth;
             partial_jp2_tile_cols = true_div_ne_floor_div (ImageWidth t) jtw;
             st = st\<lparr>tiff_strip := zeros (RowsPerStrip t, ImageWidth t, SamplesPerPixel t),
                      rgba_strip := zeros (RowsPerStrip t, ImageWidth t, 4)\<rparr>
         in tile_loop
              (strip_tile t use_rgba_interface num_jp2k_tile_cols partial_jp2_tile_rows
                 partial_jp2_tile_cols jth jtw)
              (get_tilewriters (ImageLength t) (ImageWidth t) jth jtw) st []))"

subsection \<open>copy_image\<close>

text \<open>
  \<^verbatim>\<open>copy_image\<close>, for the open TIFF \<open>t\<close> and \<^verbatim>\<open>self.tilesize\<close>. The result is the
  exception raised with the reads performed before it, or the list of the images handed
  to the JPEG 2000 writer with all the reads performed.
\<close>

definition unbound :: vars where
  "unbound = \<lparr>jp2k_tile = [], tiff_tile = [], rgba_tile = [], tiff_strip = [], rgba_strip = [],
              jrows = None, jcols = None, ulc = None, stripnum = None, reads = []\<rparr>"

definition copy_image :: "tiff \<Rightarrow> (nat \<times> nat) option \<Rightarrow> (image list \<times> read_call list) outcome" where
  "copy_image t tilesize =
     (let photometric = Photometric t;
          imagewidth = ImageWidth t;
          imageheight = ImageLength t;
          spp = SamplesPerPixel t;
          sf = SampleFormat t;
          bps = BitsPerSample t
      in if sf \<noteq> UINT then
           Inl (RuntimeError (''The TIFF SampleFormat is '' @ sample_format_name sf
                              @ ''.  Only UINT is supported.''), [])
         else if bps \<notin> set [8, 16] then
           Inl (RuntimeError (''The TIFF BitsPerSample is '' @ str_nat bps
                              @ ''.  Only 8 and 16 bits per sample are supported.''), [])
         else
           (case tilesize of
              None \<Rightarrow>
                if RGBAImageOK t then
                  (let image = readRGBAImageOriented t;
                       image = (if spp < 4 then map (map (take 3)) image else image)
                   in Inr ([image], [ReadRGBAImageOriented]))
                else Inr ([], [])
            | Some (jth, jtw) \<Rightarrow>
                if jtw = 0 then Inl (ZeroDivisionError, [])
                else
                  (let grid = grid_dimensions imagewidth imageheight jth jtw;
                       use_rgba_interface = (photometric \<in> set [YCBCR, PALETTE])
                   in if isTiled t then tiled_branch t use_rgba_interface grid jth jtw unbound
                      else striped_branch t use_rgba_interface jth jtw unbound)))"

declare tiled_cols.simps [simp del]
declare tiled_rows.simps [simp del]
declare strip_rows.simps [simp del]

section \<open>A reader for an image held in memory\<close>

text \<open>
  A source to run \<^verbatim>\<open>copy_image\<close> on: the pixels of \<open>img\<close> served as tiles or strips the way
  libtiff numbers them (tiles row by row, strip \<open>n\<close> starting at row \<open>n * rps\<close>). A read
  fills the part of the buffer that lies inside the image and leaves the rest of the
  buffer as it was. The RGBA functions are not served: they return the buffer unchanged.
\<close>

definition read_block :: "image \<Rightarrow> nat \<Rightarrow> nat \<Rightarrow> nat \<Rightarrow> nat \<Rightarrow> image \<Rightarrow> image" where
  "read_block img r0 c0 h w buf =
     map (\<lambda>i. map (\<lambda>j.
            if r0 + i < length img \<and> c0 + j < length (img ! (r0 + i))
            then img ! (r0 + i) ! (c0 + j) else buf ! i ! j) [0 ..< w]) [0 ..< h]"

definition memory_tiff ::
  "image \<Rightarrow> bool \<Rightarrow> photometric \<Rightarrow> nat \<Rightarrow> nat \<Rightarrow> nat \<Rightarrow> nat \<Rightarrow> nat \<Rightarrow> nat \<Rightarrow> nat \<Rightarrow> tiff" where
  "memory_tiff img tiled ph W H spp th tw rps ns =
     \<lparr>isTiled = tiled, Photometric = ph, ImageWidth = W, ImageLength = H,
      SamplesPerPixel = spp, SampleFormat = UINT, BitsPerSample = 8,
      TileWidth = tw, TileLength = th, RowsPerStrip = rps, numberOfStrips = ns,
      RGBAImageOK = False,
      computeTile = (\<lambda>x y. (y div th) * np_ceil_div W tw + x div tw),
      computeStrip = (\<lambda>r. r div rps),
      readEncodedTile = (\<lambda>n buf.
        read_block img ((n div np_ceil_div W tw) * th) ((n mod np_ceil_div W tw) * tw) th tw buf),
      readRGBATile = (\<lambda>x y buf. buf),
      readEncodedStrip = (\<lambda>n buf. read_block img (n * rps) 0 rps W buf),
      readRGBAStrip = (\<lambda>r buf. buf),
      readRGBAImageOriented = []\<rparr>"

text \<open>The image of height \<open>h\<close> and width \<open>w\<close> whose pixel at row \<open>i\<close>, column \<open>j\<close> is \<open>[100 * i + j]\<close>.\<close>

definition ramp :: "nat \<Rightarrow> nat \<Rightarrow> image" where
  "ramp h w = map (\<lambda>i. map (\<lambda>j. [100 * i + j]) [0 ..< w]) [0 ..< h]"

section \<open>Predicates for the statements\<close>

text \<open>An outcome that is not the \<^verbatim>\<open>RuntimeError\<close> of the format checks.\<close>

definition plain :: "'a outcome \<Rightarrow> bool" where
  "plain x = (\<forall>msg rd. x \<noteq> Inl (RuntimeError msg, rd))"

text \<open>An array with \<open>h\<close> rows of \<open>w\<close> pixels each.\<close>

definition shaped :: "nat \<Rightarrow> nat \<Rightarrow> 'a list list \<Rightarrow> bool" where
  "shaped h w a = (length a = h \<and> (\<forall>i<h. length (a ! i) = w))"

text \<open>
  What the striped branch copies from after a read of strip \<open>sn\<close>: \<^verbatim>\<open>tiff_strip\<close> as
  \<open>strip_rows\<close> leaves it. \<open>strip_source t u img\<close> says that the reader serves the pixel
  array \<open>img\<close> in strips: strip numbers are row numbers divided by the rows per strip, a
  read gives a buffer of \<^verbatim>\<open>rps\<close> rows of \<^verbatim>\<open>imagewidth\<close> pixels whose rows inside the
  image are those of \<open>img\<close>, and the RGBA interface is used for at most 4 samples.
\<close>

definition fetch_strip :: "tiff \<Rightarrow> bool \<Rightarrow> nat \<Rightarrow> vars \<Rightarrow> image" where
  "fetch_strip t u sn st =
     (if u then rev (map (map (take (SamplesPerPixel t)))
                  (readRGBAStrip t (sn * RowsPerStrip t) (rgba_strip st)))
      else readEncodedStrip t sn (tiff_strip st))"

definition strip_source :: "tiff \<Rightarrow> bool \<Rightarrow> image \<Rightarrow> bool" where
  "strip_source t u img =
     ((\<forall>r. computeStrip t r = r div RowsPerStrip t) \<and>
      (u \<longrightarrow> SamplesPerPixel t \<le> 4) \<and>
      (\<forall>sn st. shaped (RowsPerStrip t) (ImageWidth t) (fetch_strip t u sn st) \<and>
         (\<forall>i<RowsPerStrip t. \<forall>j<ImageWidth t. sn * RowsPerStrip t + i < ImageLength t \<longrightarrow>
            fetch_strip t u sn st ! i ! j = img ! (sn * RowsPerStrip t + i) ! j)))"

text \<open>
  The same for the tiled branch: \<^verbatim>\<open>tiff_tile\<close> after a read of the tile \<open>tilenum\<close>, whose
  upper left pixel is at column \<open>tulc\<close> and row \<open>tulr\<close>. The tiles are numbered row by row,
  \<open>np_ceil_div imagewidth tw\<close> to a row, and the RGBA interface is used for 3 samples.
\<close>

definition fetch_tile :: "tiff \<Rightarrow> bool \<Rightarrow> nat \<Rightarrow> nat \<Rightarrow> nat \<Rightarrow> vars \<Rightarrow> image" where
  "fetch_tile t u tilenum tulc tulr st =
     (if u then rev (map (map (take 3)) (readRGBATile t tulc tulr (rgba_tile st)))
      else readEncodedTile t tilenum (tiff_tile st))"

definition tile_source :: "tiff \<Rightarrow> bool \<Rightarrow> image \<Rightarrow> bool" where
  "tile_source t u img =
     ((\<forall>x y. computeTile t x y
          = (y div TileLength t) * np_ceil_div (ImageWidth t) (TileWidth t) + x div TileWidth t) \<and>
      (u \<longrightarrow> SamplesPerPixel t = 3) \<and>
      (\<forall>tr tc st. tc < np_ceil_div (ImageWidth t) (TileWidth t) \<longrightarrow>
         shaped (TileLength t) (TileWidth t)
           (fetch_tile t u (tr * np_ceil_div (ImageWidth t) (TileWidth t) + tc)
              (tc * TileWidth t) (tr * TileLength t) st) \<and>
         (\<forall>i<TileLength t. \<forall>j<TileWidth t.
            tr * TileLength t + i < ImageLength t \<longrightarrow> tc * TileWidth t + j < ImageWidth t \<longrightarrow>
            fetch_tile t u (tr * np_ceil_div (ImageWidth t) (TileWidth t) + tc)
              (tc * TileWidth t) (tr * TileLength t) st ! i ! j
            = img ! (tr * TileLength t + i) ! (tc * TileWidth t + j))))"

text \<open>
  The state of a destination tile while it is filled: it has its nominal shape, the pixels
  of its rows before image row \<open>bound\<close> that lie inside the image are those of \<open>img\<close>, and the
  pixels at or after image row \<open>zrow\<close>, or outside the image width, are zero.
\<close>

definition filled ::
  "tiff \<Rightarrow> image \<Rightarrow> nat \<Rightarrow> nat \<Rightarrow> nat \<Rightarrow> nat \<Rightarrow> nat \<Rightarrow> nat \<Rightarrow> image \<Rightarrow> bool" where
  "filled t img jth jtw julr julc bound zrow tile =
     (shaped jth jtw tile \<and>
      (\<forall>i<jth. \<forall>j<jtw. julr + i < bound \<longrightarrow> julr + i < ImageLength t \<longrightarrow>
         julc + j < ImageWidth t \<longrightarrow> tile ! i ! j = img ! (julr + i) ! (julc + j)) \<and>
      (\<forall>i<jth. \<forall>j<jtw. zrow \<le> julr + i \<or> ImageWidth t \<le> julc + j \<longrightarrow>
         tile ! i ! j = replicate (SamplesPerPixel t) 0))"

text \<open>A read call for a strip below the strip count.\<close>

definition strip_call :: "tiff \<Rightarrow> read_call \<Rightarrow> bool" where
  "strip_call t c =
     (\<exists>n<numberOfStrips t. c = ReadEncodedStrip n \<or> c = ReadRGBAStrip (n * RowsPerStrip t))"

section \<open>Facts about the metadata transcoder\<close>

lemma take2_drop: "p + 2 \<le> length xs \<Longrightarrow> take 2 (drop p xs) = [xs ! p, xs ! (p + 1)]"
proof -
  assume a: "p + 2 \<le> length xs"
  have "take 2 (drop p xs) = take (Suc (Suc 0)) (drop p xs)" by (simp add: numeral_2_eq_2)
  also have "\<dots> = xs ! p # take (Suc 0) (drop (Suc p) xs)"
    using a by (simp add: Cons_nth_drop_Suc [symmetric])
  also have "\<dots> = [xs ! p, xs ! (p + 1)]"
    using a by (simp add: Cons_nth_drop_Suc [symmetric])
  finally show ?thesis .
qed

lemma byte_uint_73: "(uint (b::byte) = 73) = (b = 73)"
proof
  assume "uint b = 73"
  then have "word_of_int (uint b) = (word_of_int 73 :: byte)" by simp
  then show "b = 73" by simp
next
  assume "b = 73" then show "uint b = 73" by simp
qed

lemma byte_uint_77: "(uint (b::byte) = 77) = (b = 77)"
proof
  assume "uint b = 77"
  then have "word_of_int (uint b) = (word_of_int 77 :: byte)" by simp
  then show "b = 77" by simp
next
  assume "b = 77" then show "uint b = 77" by simp
qed

lemma unpack_BB:
  "unpack Little [FB, FB] (Bytes [x, y]) = Inr [PInt (int (unat x)), PInt (int (unat y))]"
  by (simp add: unpack_def calcsize_def bytes_nat_def)

lemma pack_header_const:
  "pack [FB, FB, FH, FI] [PInt 73, PInt 73, PInt 42, PInt 8] = Inr [73, 73, 42, 0, 8, 0, 0, 0]"
  by code_simp

lemma process_header_never_RuntimeError: "process_header b tfp \<noteq> Inl (RuntimeError msg)"
  unfolding process_header_def
  by (auto simp: pack_header_const unpack_def bind_def byte_order_def
      split: prod.splits sum.splits if_splits list.splits pyval.splits)











lemma le_nat_bound: "le_nat bs < 256 ^ length bs"
proof (induction bs)
  case Nil
  then show ?case by simp
next
  case (Cons b bs)
  have "unat b < 2 ^ LENGTH(8)" by (rule unsigned_less)
  then have "unat b < 256" by simp
  with Cons show ?case by simp
qed

lemma bytes_nat_bound: "bytes_nat e bs < 256 ^ length bs"
  using le_nat_bound [of bs] le_nat_bound [of "rev bs"] by (cases e) (simp_all add: bytes_nat_def)



lemma unpack_HHI:
  "unpack e [FH, FH, FI] (Bytes bs) = Inr vs \<Longrightarrow>
     length bs = 8 \<and>
     vs = [PInt (int (bytes_nat e (take 2 bs))), PInt (int (bytes_nat e (take 2 (drop 2 bs)))),
           PInt (int (bytes_nat e (take 4 (drop 4 bs))))]"
  by (auto simp: unpack_def calcsize_def split: if_splits)





text \<open>
  Claim C7. A header whose first two bytes are neither \<open>II\<close> (73, 73) nor \<open>MM\<close> (77, 77)
  should be rejected with the error that carries the descriptive message. In the code the
  message itself cannot be built: \<^verbatim>\<open>_process_header\<close> ends in a \<^verbatim>\<open>NameError\<close> for
  the unbound name \<^verbatim>\<open>read_buffer\<close>, whatever the two bytes are, and never raises the
  \<^verbatim>\<open>RuntimeError\<close> (lemma \<open>process_header_never_RuntimeError\<close>).
\<close>

theorem process_header_bad_marker:
  assumes "tpos tfp + 2 \<le> length (tdata tfp)"
    and "\<not> (tdata tfp ! tpos tfp = 73 \<and> tdata tfp ! (tpos tfp + 1) = 73)"
    and "\<not> (tdata tfp ! tpos tfp = 77 \<and> tdata tfp ! (tpos tfp + 1) = 77)"
  shows "process_header b tfp = Inl (NameError ''read_buffer'')"
proof -
  have "take 2 (take 8 (drop (tpos tfp) (tdata tfp)))
          = [tdata tfp ! tpos tfp, tdata tfp ! (tpos tfp + 1)]"
    using take2_drop [OF assms(1)] by simp
  then show ?thesis
    using assms(2,3) unfolding process_header_def tread_def
    by (auto simp: unpack_BB byte_uint_73 byte_uint_77 Let_def bind_def byte_order_def)
qed

theorem process_header_bad_marker_witness:
  "process_header \<lparr>bbuf = [], bpos = 0\<rparr> \<lparr>tdata = [0, 0, 42, 0, 8, 0, 0, 0], tpos = 0\<rparr>
     = Inl (NameError ''read_buffer'')"
  using process_header_bad_marker
    [of "\<lparr>tdata = [0, 0, 42, 0, 8, 0, 0, 0], tpos = 0\<rparr>" "\<lparr>bbuf = [], bpos = 0\<rparr>"]
  by simp



text \<open>
  Claim C1. The round trip needs a transcoded buffer for every well-formed directory. A
  little-endian file with the single entry (tag 256, type 1 = BYTE, count 1, value 5) is
  well formed, and the transcoder ends in a \<^verbatim>\<open>TypeError\<close> on it: for a one-byte payload
  \<^verbatim>\<open>tag_data[8]\<close> is an int, which \<^verbatim>\<open>struct.unpack\<close> refuses.
\<close>

theorem copy_metadata_one_byte_entry:
  "copy_metadata [73,73,42,0,8,0,0,0, 1,0, 0,1, 1,0, 1,0,0,0, 5,0,0,0, 0,0,0,0] = Inl TypeError"
  by code_simp

text \<open>
  Claim C8, as stated, fails: for the type code 6, which is not in the table, the error is
  the \<^verbatim>\<open>KeyError\<close> of the dictionary lookup, not the \<^verbatim>\<open>RuntimeError\<close> that the code
  uses for format errors.
\<close>

theorem copy_metadata_unknown_type_counterexample:
  "tag_dtype 6 = None \<and>
   copy_metadata [73,73,42,0,8,0,0,0, 1,0, 0,1, 6,0, 1,0,0,0, 5,0,0,0, 0,0,0,0] = Inl (KeyError 6)"
  by code_simp

lemma tags_loop_append:
  "tags_loop e buffer start (xs @ ys) st
     = bind (tags_loop e buffer start xs st) (tags_loop e buffer start ys)"
  by (induction xs arbitrary: st) (auto simp: bind_def split: sum.splits)

lemma process_tag_unknown:
  assumes "unpack e [FH, FH, FI] (Bytes (take 8 (take 12 (drop (idx * 12) buffer))))
             = Inr [PInt tag, PInt dtype, PInt nvalues]"
    and "tag_dtype (nat dtype) = None"
  shows "process_tag e buffer start idx st = Inl (KeyError (nat dtype))"
  using assms unfolding process_tag_def bind_def Let_def
  by (cases st) simp

text \<open>
  Claim C8, amended. A directory with an entry whose type code is not in \<^verbatim>\<open>tag_dtype\<close>
  is never transcoded: \<^verbatim>\<open>_process_tags\<close> ends in an exception. The loop reaches that
  entry unless an earlier entry already failed, and raises \<^verbatim>\<open>KeyError\<close> with the type
  code there.
\<close>

theorem process_tags_unknown_type:
  assumes cnt: "unpack e [FH] (Bytes (fst (tread 2 tfp))) = Inr [PInt num_tags]"
    and buf: "buffer = fst (tread (nat num_tags * 12) (snd (tread 2 tfp)))"
    and idx: "idx < nat num_tags"
    and ent: "unpack e [FH, FH, FI] (Bytes (take 8 (take 12 (drop (idx * 12) buffer))))
                = Inr [PInt tag, PInt dtype, PInt nvalues]"
    and unk: "tag_dtype (nat dtype) = None"
  shows "(\<exists>err. process_tags b tfp e = Inl err)
       \<and> tags_loop e buffer start (pre @ idx # post) st
           = (case tags_loop e buffer start pre st of
                Inl err \<Rightarrow> Inl err
              | Inr st' \<Rightarrow> Inl (KeyError (nat dtype)))"
proof
  have split: "[0 ..< nat num_tags] = [0 ..< idx] @ idx # [Suc idx ..< nat num_tags]"
    using idx by (metis less_imp_add_positive upt_add_eq_append upt_conv_Cons le0 add.commute add_0 less_add_same_cancel1 less_imp_le)
  have fail: "\<exists>err. tags_loop e buffer s [0 ..< nat num_tags] st0 = Inl err" for s st0
    unfolding split tags_loop_append
    by (cases "tags_loop e buffer s [0..<idx] st0")
       (simp_all add: bind_def process_tag_unknown [OF ent unk])
  obtain bf tfp1 where rd: "tread 2 tfp = (bf, tfp1)" by (cases "tread 2 tfp")
  obtain bf2 tfp2 where rd2: "tread (nat num_tags * 12) tfp1 = (bf2, tfp2)"
    by (cases "tread (nat num_tags * 12) tfp1")
  have b2: "bf2 = buffer" using buf rd rd2 by simp
  show "\<exists>err. process_tags b tfp e = Inl err"
  proof (cases "pack [FH] [PInt num_tags]")
    case (Inl err)
    then show ?thesis using cnt rd unfolding process_tags_def bind_def by simp
  next
    case (Inr wb)
    from fail [of "bpos (bwrite wb b)" "(bwrite wb b, tfp2, bpos (bwrite wb b) + length buffer)"]
    obtain err where "tags_loop e buffer (bpos (bwrite wb b)) [0 ..< nat num_tags]
        (bwrite wb b, tfp2, bpos (bwrite wb b) + length buffer) = Inl err" by blast
    then show ?thesis using cnt rd rd2 b2 Inr unfolding process_tags_def bind_def
      by (simp add: Let_def)
  qed
next
  show "tags_loop e buffer start (pre @ idx # post) st
           = (case tags_loop e buffer start pre st of
                Inl err \<Rightarrow> Inl err
              | Inr st' \<Rightarrow> Inl (KeyError (nat dtype)))"
    unfolding tags_loop_append
    by (cases "tags_loop e buffer start pre st")
       (simp_all add: bind_def process_tag_unknown [OF ent unk])
qed

theorem process_tags_unknown_type_witness:
  "(\<exists>err. process_tags \<lparr>bbuf = [73, 73, 42, 0, 8, 0, 0, 0], bpos = 8\<rparr>
       \<lparr>tdata = [73,73,42,0,8,0,0,0, 1,0, 0,1, 6,0, 1,0,0,0, 5,0,0,0, 0,0,0,0], tpos = 8\<rparr>
       Little = Inl err)
   \<and> tags_loop Little [0,1, 6,0, 1,0,0,0, 5,0,0,0] 10 [0]
        (\<lparr>bbuf = [73, 73, 42, 0, 8, 0, 0, 0, 1, 0], bpos = 10\<rparr>,
         \<lparr>tdata = [73,73,42,0,8,0,0,0, 1,0, 0,1, 6,0, 1,0,0,0, 5,0,0,0, 0,0,0,0], tpos = 22\<rparr>, 22)
       = Inl (KeyError 6)"
proof -
  let ?tfp = "\<lparr>tdata = [73,73,42,0,8,0,0,0, 1,0, 0,1, 6,0, 1,0,0,0, 5,0,0,0, 0,0,0,0 :: byte], tpos = 8\<rparr>"
  let ?buffer = "[0,1, 6,0, 1,0,0,0, 5,0,0,0] :: byte list"
  have cnt: "unpack Little [FH] (Bytes (fst (tread 2 ?tfp))) = Inr [PInt 1]" by code_simp
  have buf: "?buffer = fst (tread (nat 1 * 12) (snd (tread 2 ?tfp)))" by code_simp
  have idx: "(0::nat) < nat 1" by simp
  have ent: "unpack Little [FH, FH, FI] (Bytes (take 8 (take 12 (drop (0 * 12) ?buffer))))
                = Inr [PInt 256, PInt 6, PInt 1]" by code_simp
  have unk: "tag_dtype (nat 6) = None" by code_simp
  from process_tags_unknown_type [OF cnt buf idx ent unk, of "\<lparr>bbuf = [73, 73, 42, 0, 8, 0, 0, 0], bpos = 8\<rparr>" 10 "[]" "[]"
      "(\<lparr>bbuf = [73, 73, 42, 0, 8, 0, 0, 0, 1, 0], bpos = 10\<rparr>,
         \<lparr>tdata = [73,73,42,0,8,0,0,0, 1,0, 0,1, 6,0, 1,0,0,0, 5,0,0,0, 0,0,0,0], tpos = 22\<rparr>, 22)"]
  show ?thesis by simp
qed


lemma byte_of_unat: "(word_of_nat (unat (x::byte) mod 256) :: byte) = x"
proof -
  have "unat x < 2 ^ LENGTH(8)" by (rule unsigned_less)
  then have "unat x mod 256 = unat x" by simp
  then show ?thesis by simp
qed

lemma take2_two: "length bs = 2 \<Longrightarrow> \<exists>x y. bs = [x, y]"
  by (cases bs; cases "tl bs") auto

lemma pack_HHI:
  "t < 65536 \<Longrightarrow> d < 65536 \<Longrightarrow> n < 4294967296 \<Longrightarrow>
   pack [FH, FH, FI] [PInt (int t), PInt (int d), PInt (int n)]
     = Inr (nat_le 2 t @ nat_le 2 d @ nat_le 4 n)"
  by simp

lemma unpack_HHI_bounds:
  assumes "unpack e [FH, FH, FI] (Bytes bs) = Inr [PInt tag, PInt dtype, PInt nvalues]"
  shows "0 \<le> tag \<and> tag < 65536 \<and> 0 \<le> dtype \<and> dtype < 65536 \<and> 0 \<le> nvalues \<and> nvalues < 4294967296"
proof -
  from unpack_HHI [OF assms] have l: "length bs = 8"
    and t: "tag = int (bytes_nat e (take 2 bs))"
    and d: "dtype = int (bytes_nat e (take 2 (drop 2 bs)))"
    and n: "nvalues = int (bytes_nat e (take 4 (drop 4 bs)))" by simp_all
  show ?thesis
    using bytes_nat_bound [of e "take 2 bs"] bytes_nat_bound [of e "take 2 (drop 2 bs)"]
      bytes_nat_bound [of e "take 4 (drop 4 bs)"] l unfolding t d n by simp
qed

lemma pack_HHI_unpacked:
  assumes "unpack e [FH, FH, FI] (Bytes bs) = Inr [PInt tag, PInt dtype, PInt nvalues]"
  shows "pack [FH, FH, FI] [PInt tag, PInt dtype, PInt nvalues]
     = Inr (nat_le 2 (nat tag) @ nat_le 2 (nat dtype) @ nat_le 4 (nat nvalues))"
  using unpack_HHI_bounds [OF assms] pack_HHI [of "nat tag" "nat dtype" "nat nvalues"]
  by simp

text \<open>
  Claim C4, amended. For an entry of type 3 (SHORT) with count 1 the loop body writes tag,
  type and count unchanged, little-endian, and then the value as a 4-byte little-endian
  unsigned int. For an entry of a one-byte type (1, 2, 7) with count 2 it writes tag, type
  and count and then the two payload bytes as they are: 10 bytes, not 12.
\<close>

theorem inline_two_byte_payload:
  assumes len: "idx * 12 + 12 \<le> length buffer"
    and ent: "unpack e [FH, FH, FI] (Bytes (take 8 (take 12 (drop (idx * 12) buffer))))
                = Inr [PInt tag, PInt dtype, PInt nvalues]"
    and kind: "dtype = 3 \<and> nvalues = 1 \<or> dtype \<in> {1, 2, 7} \<and> nvalues = 2"
  shows "process_tag e buffer start idx (b, tfp, after)
       = Inr (bwrite (if dtype = 3 then nat_le 4 (bytes_nat e (take 2 (drop (idx * 12 + 8) buffer)))
                      else take 2 (drop (idx * 12 + 8) buffer))
               (bwrite (nat_le 2 (nat tag) @ nat_le 2 (nat dtype) @ nat_le 4 (nat nvalues))
                  (bseek (start + idx * 12) b)),
              tfp, after)"
proof -
  let ?td = "take 12 (drop (idx * 12) buffer)"
  let ?src = "take 2 (drop (idx * 12 + 8) buffer)"
  have src: "take 2 (drop 8 ?td) = ?src" by (simp add: take_drop min_def add.commute)
  have lsrc: "length ?src = 2" using len by simp
  then obtain x y where xy: "?src = [x, y]" using take2_two by blast
  note pk = pack_HHI_unpacked [OF ent]
  from kind show ?thesis
  proof
    assume k: "dtype = 3 \<and> nvalues = 1"
    have v: "bytes_nat e ?src < 65536" using bytes_nat_bound [of e ?src] lsrc by simp
    have td: "tag_dtype (nat dtype) = Some ([FH], 2)" using k by (simp add: tag_dtype_def)
    have ib: "inline_buffer 2 nvalues ?td = Inr (Bytes ?src)"
      using k src by (simp add: inline_buffer_def)
    have up: "unpack e [FH] (Bytes ?src) = Inr [PInt (int (bytes_nat e ?src))]"
      using lsrc by (simp add: unpack_def calcsize_def)
    have pv: "pack [FI] [PInt (int (bytes_nat e ?src))] = Inr (nat_le 4 (bytes_nat e ?src))"
      using v by simp
    show ?thesis
      unfolding process_tag_def inline_tag_def
      using k ent td ib up pk pv by (simp add: bind_def Let_def)
  next
    assume k: "dtype \<in> {1, 2, 7} \<and> nvalues = 2"
    have td: "tag_dtype (nat dtype) = Some ([FB], 1)" using k by (auto simp: tag_dtype_def)
    have ib: "inline_buffer 1 nvalues ?td = Inr (Bytes ?src)"
      using k src by (simp add: inline_buffer_def)
    have up: "unpack e [FB, FB] (Bytes ?src) = Inr [PInt (int (unat x)), PInt (int (unat y))]"
      unfolding xy by (cases e) (simp_all add: unpack_def calcsize_def bytes_nat_def)
    have pv: "pack [FB, FB] [PInt (int (unat x)), PInt (int (unat y))] = Inr ?src"
    proof -
      have "uint x < 2 ^ LENGTH(8)" "uint y < 2 ^ LENGTH(8)" by (rule unsigned_less)+
      then show ?thesis unfolding xy by (simp add: byte_of_unat)
    qed
    have rep: "concat (replicate (nat nvalues) [FB]) = [FB, FB]" using k by (simp add: numeral_2_eq_2)
    have d3: "dtype \<noteq> 3" using k by auto
    show ?thesis
      unfolding process_tag_def inline_tag_def
      using k ent td ib up pk pv rep d3 by (simp add: bind_def Let_def)
  qed
qed

theorem inline_two_byte_payload_witness:
  "process_tag Big [1,0, 0,3, 0,0,0,1, 0,5,0,0] 10 0
      (\<lparr>bbuf = [73, 73, 42, 0, 8, 0, 0, 0, 1, 0], bpos = 10\<rparr>, \<lparr>tdata = [], tpos = 0\<rparr>, 22)
   = Inr (\<lparr>bbuf = [73, 73, 42, 0, 8, 0, 0, 0, 1, 0, 0, 1, 3, 0, 1, 0, 0, 0, 5, 0, 0, 0], bpos = 22\<rparr>,
          \<lparr>tdata = [], tpos = 0\<rparr>, 22)"
proof -
  let ?buffer = "[1,0, 0,3, 0,0,0,1, 0,5,0,0] :: byte list"
  have len: "0 * 12 + 12 \<le> length ?buffer" by simp
  have ent: "unpack Big [FH, FH, FI] (Bytes (take 8 (take 12 (drop (0 * 12) ?buffer))))
                = Inr [PInt 256, PInt 3, PInt 1]" by code_simp
  have kind: "(3::int) = 3 \<and> (1::int) = 1 \<or> (3::int) \<in> {1, 2, 7} \<and> (1::int) = 2" by simp
  have ev: "bwrite (if (3::int) = 3 then nat_le 4 (bytes_nat Big (take 2 (drop (0 * 12 + 8) ?buffer)))
                      else take 2 (drop (0 * 12 + 8) ?buffer))
               (bwrite (nat_le 2 (nat 256) @ nat_le 2 (nat 3) @ nat_le 4 (nat 1))
                  (bseek (10 + 0 * 12) \<lparr>bbuf = [73, 73, 42, 0, 8, 0, 0, 0, 1, 0], bpos = 10\<rparr>))
        = \<lparr>bbuf = [73, 73, 42, 0, 8, 0, 0, 0, 1, 0, 0, 1, 3, 0, 1, 0, 0, 0, 5, 0, 0, 0], bpos = 22\<rparr>"
    by code_simp
  from inline_two_byte_payload [OF len ent kind, of 10 "\<lparr>bbuf = [73, 73, 42, 0, 8, 0, 0, 0, 1, 0], bpos = 10\<rparr>"
      "\<lparr>tdata = [], tpos = 0\<rparr>" 22]
  show ?thesis unfolding ev by simp
qed

text \<open>
  Claim C4, as stated, fails for a two-byte payload of two BYTE values (5, 6): the value
  slot receives the two bytes only, and the buffer ends after them at length 20.
\<close>

theorem inline_two_bytes_not_widened_counterexample:
  "process_tag Little [0,1, 1,0, 2,0,0,0, 5,6,0,0] 10 0
      (\<lparr>bbuf = [73, 73, 42, 0, 8, 0, 0, 0, 1, 0], bpos = 10\<rparr>, \<lparr>tdata = [], tpos = 0\<rparr>, 22)
   = Inr (\<lparr>bbuf = [73, 73, 42, 0, 8, 0, 0, 0, 1, 0, 0, 1, 1, 0, 2, 0, 0, 0, 5, 6], bpos = 20\<rparr>,
          \<lparr>tdata = [], tpos = 0\<rparr>, 22)"
  by code_simp

section \<open>Facts about the raster remapper\<close>

text \<open>
  Claim C5. The remapper's grid should have \<open>ceil(width / jtw)\<close> columns and
  \<open>ceil(height / jth)\<close> rows. \<^verbatim>\<open>copy_image\<close> computes the columns so, and the rows from
  the width as well: for a 4 wide, 6 high image and 2 by 2 tiles it takes 2 rows, where
  \<open>ceil(6 / 2) = 3\<close>.
\<close>

theorem grid_rows_from_width:
  "grid_dimensions 4 6 2 2 = (2, 2) \<and> np_ceil_div 6 2 = 3 \<and> np_ceil_div 4 2 = 2"
  by code_simp

lemma grid_dimensions_eq:
  "grid_dimensions W H jth jtw = (np_ceil_div W jtw, np_ceil_div W jtw)"
  by (simp add: grid_dimensions_def)

text \<open>
  Claim C3. A tile in the last grid column should be handed to the writer with
  \<open>min(jtw, W - tc * jtw)\<close> columns. Tiled branch, image 20 wide and 1 high in 16 by 16
  TIFF tiles, JPEG 2000 tiles 1 by 14: the second tile should have 6 columns and is handed
  over with 12, the columns that the last TIFF tile was copied to.
\<close>

theorem tiled_crop_last_column:
  "map (\<lambda>tile. (length tile, map length tile))
     (case copy_image (memory_tiff (ramp 1 20) True MINISBLACK 20 1 1 16 16 0 0) (Some (1, 14)) of
        Inr (tiles, rd) \<Rightarrow> tiles)
   = [(1, [14]), (1, [12])]"
  by code_simp

text \<open>
  Claim C6, as stated, fails when the strip count ends the loop: image 5 wide and 3 high,
  one row per strip, 2 strips declared, JPEG 2000 tiles 2 by 5. For the second tile the
  loop stops at strip index 2, the rows stay zero, and the tile is handed over with its 2
  nominal rows, where the image has 1 row left.
\<close>

theorem strip_count_short_counterexample:
  "copy_image (memory_tiff (ramp 3 5) False MINISBLACK 5 3 1 0 0 1 2) (Some (2, 5))
     = Inr ([[[[0], [1], [2], [3], [4]], [[100], [101], [102], [103], [104]]],
             [[[0], [0], [0], [0], [0]], [[0], [0], [0], [0], [0]]]],
            [ReadEncodedStrip 0, ReadEncodedStrip 1])"
  by code_simp



lemma plain_simps [simp]:
  "plain (Inr y)" "plain (Inl (ZeroDivisionError, rd))" "plain (Inl (ValueError, rd))"
  "plain (Inl (NameError n, rd))"
  by (simp_all add: plain_def)














section \<open>Arithmetic of the grid and of slices\<close>

lemma np_ceil_div_eq:
  assumes b: "0 < b"
  shows "np_ceil_div a b = (a + b - 1) div b"
proof -
  define q where "q = (a + b - 1) div b"
  have q1: "q * b \<le> a + b - 1" unfolding q_def by simp
  have q2: "a + b - 1 < q * b + b"
    unfolding q_def using dividend_less_div_times [OF b, of "a + b - 1"] by simp
  have le: "a \<le> q * b" using q2 b by linarith
  have lt: "int q * int b - int b < int a"
  proof -
    have "int (q * b) \<le> int (a + b - 1)" using q1 by (rule iffD2 [OF of_nat_le_iff])
    then have "int q * int b \<le> int a + int b - 1" using b by (simp add: of_nat_diff)
    then show ?thesis by linarith
  qed
  have u: "(of_nat a :: rat) / of_nat b \<le> of_int (int q)"
  proof -
    have "(of_nat a :: rat) \<le> of_nat (q * b)" using le by (rule iffD2 [OF of_nat_le_iff])
    then show ?thesis using b by (simp add: pos_divide_le_eq)
  qed
  have l: "of_int (int q) - 1 < (of_nat a :: rat) / of_nat b"
  proof -
    have "(of_int (int q * int b - int b) :: rat) < of_int (int a)"
      using lt by (rule iffD2 [OF of_int_less_iff])
    then have "(of_nat q - 1) * (of_nat b :: rat) < of_nat a"
      by (simp add: algebra_simps)
    then show ?thesis using b by (simp add: pos_less_divide_eq)
  qed
  have "\<lceil>(of_nat a :: rat) / of_nat b\<rceil> = int q" using l u by (rule ceiling_unique)
  then show ?thesis by (simp add: np_ceil_div_def q_def)
qed

lemma true_div_ne_floor_div_eq:
  assumes b: "0 < b"
  shows "true_div_ne_floor_div a b = (a mod b \<noteq> 0)"
proof -
  have nz: "(of_nat b :: rat) \<noteq> 0" using b by simp
  have "((of_nat a :: rat) / of_nat b = of_nat (a div b))
          = ((of_nat a :: rat) = of_nat (a div b) * of_nat b)"
    using nz by (rule nonzero_divide_eq_eq)
  also have "\<dots> = ((of_nat a :: rat) = of_nat (a div b * b))"
    by (simp only: of_nat_mult)
  also have "\<dots> = (a = a div b * b)" by (rule of_nat_eq_iff)
  also have "\<dots> = (a mod b = 0)"
    using div_mult_mod_eq [of a b] by linarith
  finally show ?thesis by (simp only: true_div_ne_floor_div_def)
qed

lemma ceil_mult_bound: "0 < b \<Longrightarrow> k < (a + b - 1) div b \<Longrightarrow> k * b < (a::nat)"
proof -
  assume b: "0 < b" and k: "k < (a + b - 1) div b"
  then have "Suc k \<le> (a + b - 1) div b" by simp
  then have "Suc k * b \<le> a + b - 1" using b by (simp add: less_eq_div_iff_mult_less_eq)
  then show ?thesis using b by simp
qed

lemma slice_index_nat: "slice_index n (int k) = min n k"
  by (simp add: slice_index_def)

lemma mod_above_base:
  assumes "base = k * n" "base \<le> x" "x < base + (n::nat)"
  shows "x mod n = x - base"
proof -
  have "x = (x - base) + base" using assms(2) by linarith
  then have "x mod n = ((x - base) + k * n) mod n" using assms(1) by (simp only:)
  also have "\<dots> = (x - base) mod n" by (rule mod_mult_self1)
  also have "\<dots> = x - base" using assms(2,3) by (intro mod_less) linarith
  finally show ?thesis .
qed

lemma local_slice_eq:
  assumes n: "0 < (n::nat)" and base: "base = k * n" and "base \<le> ul" "ul < lr" "lr \<le> base + n"
  shows "local_slice ul lr n = (int (ul - base), int (lr - base))"
proof -
  have "ul < base + n" using assms(4,5) by linarith
  with base assms(3) have "ul mod n = ul - base" by (rule mod_above_base)
  moreover have "int ul mod int n = int (ul mod n)" by (rule of_nat_mod [symmetric])
  ultimately have 1: "int ul mod int n = int (ul - base)" by (simp only:)
  have "base \<le> lr - 1" "lr - 1 < base + n" using assms(3,4,5) by linarith+
  with base have "(lr - 1) mod n = lr - 1 - base" by (rule mod_above_base)
  moreover have "int (lr - 1) mod int n = int ((lr - 1) mod n)" by (rule of_nat_mod [symmetric])
  moreover have "int lr - 1 = int (lr - 1)" using assms(4) by linarith
  ultimately have "(int lr - 1) mod int n = int (lr - 1 - base)" by (simp only:)
  moreover have "int (lr - 1 - base) + 1 = int (lr - base)" using assms(3,4) by linarith
  ultimately have 2: "(int lr - 1) mod int n + 1 = int (lr - base)" by (simp only:)
  show ?thesis unfolding local_slice_def by (simp only: 1 2)
qed


lemma getslice_nat:
  assumes "a \<le> b" "b \<le> length xs"
  shows "getslice (int a, int b) xs = take (b - a) (drop a xs)"
  using assms by (simp add: getslice_def slice_len_def slice_start_def slice_index_nat min_def)

lemma getslice_nth:
  assumes "a \<le> b" "b \<le> length xs" "i < b - a"
  shows "getslice (int a, int b) xs ! i = xs ! (a + i)"
  using assms by (simp add: getslice_nat)

lemma slice_len_nat: "a \<le> b \<Longrightarrow> b \<le> n \<Longrightarrow> slice_len n (int a, int b) = b - a"
  by (simp add: slice_len_def slice_index_nat min_def)

lemma slice_start_nat: "a \<le> n \<Longrightarrow> slice_start n (int a, int b) = a"
  by (simp add: slice_start_def slice_index_nat min_def)

lemma setitem_nat:
  assumes "a \<le> b" "b \<le> dh" "c \<le> d" "d \<le> dw"
  shows "setitem (dh, dw, dc) (int a, int b) (int c, int d) dst (b - a, d - c, dc) val
         = Inr (map (\<lambda>i. if a \<le> i \<and> i < b then
                          map (\<lambda>j. if c \<le> j \<and> j < d then val ! (i - a) ! (j - c) else dst ! i ! j) [0 ..< dw]
                        else dst ! i) [0 ..< dh])"
proof -
  have s: "slice_start dh (int a, int b) = a" "slice_len dh (int a, int b) = b - a"
    "slice_start dw (int c, int d) = c" "slice_len dw (int c, int d) = d - c"
    using assms by (simp_all add: slice_start_nat slice_len_nat)
  have bi: "bcast_index (b - a) (i - a) = i - a" if "a \<le> i" "i < b" for i
    using that by (auto simp: bcast_index_def)
  have bj: "bcast_index (d - c) (j - c) = j - c" if "c \<le> j" "j < d" for j
    using that by (auto simp: bcast_index_def)
  show ?thesis
    unfolding setitem_def using assms
    by (auto simp: s Let_def broadcastable_def bcast_pixel_def bi bj intro!: map_cong)
qed

lemma shaped_nth: "shaped h w a \<Longrightarrow> i < h \<Longrightarrow> length (a ! i) = w"
  by (simp add: shaped_def)

lemma shaped_length: "shaped h w a \<Longrightarrow> length a = h"
  by (simp add: shaped_def)

lemma block_nth:
  assumes src: "shaped th tw src"
    and "a \<le> b" "b \<le> th" "c \<le> d" "d \<le> tw" "i < b - a" "j < d - c"
  shows "map (getslice (int c, int d)) (getslice (int a, int b) src) ! i ! j = src ! (a + i) ! (c + j)"
proof -
  have l: "length src = th" using src by (rule shaped_length)
  have gl: "length (getslice (int a, int b) src) = b - a"
    using assms(2,3) l by (simp add: getslice_nat)
  have r: "getslice (int a, int b) src ! i = src ! (a + i)"
    using assms(2,3,6) l by (simp add: getslice_nth)
  have rl: "length (src ! (a + i)) = tw"
    using src assms(3,6) by (intro shaped_nth [OF src]) linarith
  have "map (getslice (int c, int d)) (getslice (int a, int b) src) ! i
          = getslice (int c, int d) (src ! (a + i))"
    using gl assms(6) r by simp
  also have "\<dots> ! j = src ! (a + i) ! (c + j)"
    using assms(4,5,7) rl by (simp add: getslice_nth)
  finally show ?thesis .
qed

lemma copy_region:
  fixes jth jtw th tw ulr llr ulc urc :: nat
  assumes pos: "0 < jth" "0 < jtw" "0 < th" "0 < tw"
    and jb: "julr = a * jth" "julc = b * jtw" and tb: "tulr = p * th" "tulc = q * tw"
    and rows: "julr \<le> ulr" "tulr \<le> ulr" "ulr < llr" "llr \<le> julr + jth" "llr \<le> tulr + th"
    and cols: "julc \<le> ulc" "tulc \<le> ulc" "ulc < urc" "urc \<le> julc + jtw" "urc \<le> tulc + tw"
    and dst: "shaped jth jtw dst" and src: "shaped th tw src"
  shows "\<exists>tile. setitem (jth, jtw, spp) (local_slice ulr llr jth) (local_slice ulc urc jtw) dst
            (slice_len th (local_slice ulr llr th), slice_len tw (local_slice ulc urc tw), spp)
            (map (getslice (local_slice ulc urc tw)) (getslice (local_slice ulr llr th) src)) = Inr tile
         \<and> shaped jth jtw tile
         \<and> (\<forall>i<jth. \<forall>j<jtw. tile ! i ! j =
               (if ulr \<le> julr + i \<and> julr + i < llr \<and> ulc \<le> julc + j \<and> julc + j < urc
                then src ! (julr + i - tulr) ! (julc + j - tulc) else dst ! i ! j))"
proof -
  let ?a = "ulr - julr" and ?b = "llr - julr" and ?c = "ulc - julc" and ?d = "urc - julc"
  let ?ta = "ulr - tulr" and ?tb = "llr - tulr" and ?tc = "ulc - tulc" and ?td = "urc - tulc"
  have js: "local_slice ulr llr jth = (int ?a, int ?b)" "local_slice ulc urc jtw = (int ?c, int ?d)"
    using pos jb rows cols by (simp_all only: local_slice_eq)
  have ts: "local_slice ulr llr th = (int ?ta, int ?tb)" "local_slice ulc urc tw = (int ?tc, int ?td)"
    using pos tb rows cols by (simp_all only: local_slice_eq)
  have ab: "?a \<le> ?b" "?b \<le> jth" "?c \<le> ?d" "?d \<le> jtw" using rows cols by linarith+
  have tab: "?ta \<le> ?tb" "?tb \<le> th" "?tc \<le> ?td" "?td \<le> tw" using rows cols by linarith+
  have e: "?tb - ?ta = ?b - ?a" "?td - ?tc = ?d - ?c" using rows cols by linarith+
  have sl: "slice_len th (int ?ta, int ?tb) = ?b - ?a" "slice_len tw (int ?tc, int ?td) = ?d - ?c"
    using tab e by (simp_all add: slice_len_nat)
  let ?val = "map (getslice (int ?tc, int ?td)) (getslice (int ?ta, int ?tb) src)"
  let ?tile = "map (\<lambda>i. if ?a \<le> i \<and> i < ?b then
                          map (\<lambda>j. if ?c \<le> j \<and> j < ?d then ?val ! (i - ?a) ! (j - ?c) else dst ! i ! j) [0 ..< jtw]
                        else dst ! i) [0 ..< jth]"
  have set: "setitem (jth, jtw, spp) (int ?a, int ?b) (int ?c, int ?d) dst (?b - ?a, ?d - ?c, spp) ?val
               = Inr ?tile"
    using ab by (rule setitem_nat)
  have sh: "shaped jth jtw ?tile"
    using dst by (auto simp: shaped_def)
  have pt: "?tile ! i ! j =
               (if ulr \<le> julr + i \<and> julr + i < llr \<and> ulc \<le> julc + j \<and> julc + j < urc
                then src ! (julr + i - tulr) ! (julc + j - tulc) else dst ! i ! j)"
    if ij: "i < jth" "j < jtw" for i j
  proof -
    have ri: "(?a \<le> i \<and> i < ?b) = (ulr \<le> julr + i \<and> julr + i < llr)"
      using rows(1,3) by linarith
    have cj: "(?c \<le> j \<and> j < ?d) = (ulc \<le> julc + j \<and> julc + j < urc)"
      using cols(1,3) by linarith
    show ?thesis
    proof (cases "ulr \<le> julr + i \<and> julr + i < llr \<and> ulc \<le> julc + j \<and> julc + j < urc")
      case True
      then have in_r: "?a \<le> i" "i < ?b" and in_c: "?c \<le> j" "j < ?d"
        using ri cj by simp_all
      have "?tile ! i ! j = ?val ! (i - ?a) ! (j - ?c)" using ij in_r in_c by simp
      also have "\<dots> = src ! (?ta + (i - ?a)) ! (?tc + (j - ?c))"
      proof -
        have "i - ?a < ?b - ?a" using in_r by linarith
        then have i1: "i - ?a < ?tb - ?ta" by (simp only: e)
        have "j - ?c < ?d - ?c" using in_c by linarith
        then have i2: "j - ?c < ?td - ?tc" by (simp only: e)
        show ?thesis by (rule block_nth [OF src tab i1 i2])
      qed
      also have "?ta + (i - ?a) = julr + i - tulr" using True rows(1,2) by linarith
      also have "?tc + (j - ?c) = julc + j - tulc" using True cols(1,2) by linarith
      finally show ?thesis using True by simp
    next
      case False
      then have "\<not> (?a \<le> i \<and> i < ?b \<and> ?c \<le> j \<and> j < ?d)" using ri cj by blast
      then have eq: "?tile ! i ! j = dst ! i ! j" using ij by auto
      show ?thesis unfolding eq using False by (rule if_not_P [symmetric])
    qed
  qed
  have 1: "setitem (jth, jtw, spp) (local_slice ulr llr jth) (local_slice ulc urc jtw) dst
            (slice_len th (local_slice ulr llr th), slice_len tw (local_slice ulc urc tw), spp)
            (map (getslice (local_slice ulc urc tw)) (getslice (local_slice ulr llr th) src)) = Inr ?tile"
    unfolding js ts sl by (rule set)
  have 2: "\<forall>i<jth. \<forall>j<jtw. ?tile ! i ! j =
               (if ulr \<le> julr + i \<and> julr + i < llr \<and> ulc \<le> julc + j \<and> julc + j < urc
                then src ! (julr + i - tulr) ! (julc + j - tulc) else dst ! i ! j)"
    by (intro allI impI pt)
  show ?thesis
    by (rule exI [of _ ?tile]) (intro conjI 1 sh 2)
qed

section \<open>The loop of the striped branch\<close>

lemma strip_rows_exit:
  assumes "0 < RowsPerStrip t"
    and "\<not> (r div RowsPerStrip t) * RowsPerStrip t < min (julr + jth) (ImageLength t)"
  shows "strip_rows t u jth jtw julr julc r st = Inr st"
  using assms by (subst strip_rows.simps) auto

lemma strip_rows_break:
  assumes "0 < RowsPerStrip t"
    and "(r div RowsPerStrip t) * RowsPerStrip t < min (julr + jth) (ImageLength t)"
    and "numberOfStrips t \<le> computeStrip t r"
  shows "strip_rows t u jth jtw julr julc r st = Inr (st\<lparr>stripnum := Some (computeStrip t r)\<rparr>)"
  using assms by (subst strip_rows.simps) (simp add: Let_def)

lemma strip_rows_step:
  assumes "0 < RowsPerStrip t" "0 < ImageWidth t"
    and "(r div RowsPerStrip t) * RowsPerStrip t < min (julr + jth) (ImageLength t)"
    and "computeStrip t r < numberOfStrips t"
    and "u \<longrightarrow> SamplesPerPixel t \<le> 4"
    and "setitem (jth, jtw, SamplesPerPixel t)
           (local_slice (max julr (computeStrip t r * RowsPerStrip t))
              (min (julr + jth) (computeStrip t r * RowsPerStrip t + RowsPerStrip t)) jth)
           (local_slice julc (min (julc + jtw) (ImageWidth t)) jtw)
           (jp2k_tile st)
           (slice_len (RowsPerStrip t)
              (local_slice (max julr (computeStrip t r * RowsPerStrip t))
                 (min (julr + jth) (computeStrip t r * RowsPerStrip t + RowsPerStrip t))
                 (RowsPerStrip t)),
            slice_len (ImageWidth t) (local_slice julc (min (julc + jtw) (ImageWidth t)) (ImageWidth t)),
            SamplesPerPixel t)
           (map (getslice (local_slice julc (min (julc + jtw) (ImageWidth t)) (ImageWidth t)))
              (getslice
                 (local_slice (max julr (computeStrip t r * RowsPerStrip t))
                    (min (julr + jth) (computeStrip t r * RowsPerStrip t + RowsPerStrip t))
                    (RowsPerStrip t))
                 (fetch_strip t u (computeStrip t r) st))) = Inr tile"
  shows "\<exists>st2. strip_rows t u jth jtw julr julc r st
                 = strip_rows t u jth jtw julr julc (r + RowsPerStrip t) st2
          \<and> jp2k_tile st2 = tile \<and> vars.ulc st2 = Some julc
          \<and> stripnum st2 = Some (computeStrip t r)
          \<and> reads st2 = reads st @ [if u then ReadRGBAStrip (computeStrip t r * RowsPerStrip t)
                                    else ReadEncodedStrip (computeStrip t r)]"
proof (cases u)
  case True
  then have m: "min (SamplesPerPixel t) 4 = SamplesPerPixel t" using assms(5) by simp
  show ?thesis
  proof -
    let ?sn = "computeStrip t r"
    let ?rg = "readRGBAStrip t (?sn * RowsPerStrip t) (rgba_strip st)"
    let ?st2 = "st\<lparr>stripnum := Some ?sn, rgba_strip := ?rg,
               tiff_strip := rev (map (map (take (SamplesPerPixel t))) ?rg),
               reads := reads st @ [ReadRGBAStrip (?sn * RowsPerStrip t)],
               jrows := Some (local_slice (max julr (?sn * RowsPerStrip t))
                    (min (julr + jth) (?sn * RowsPerStrip t + RowsPerStrip t)) jth),
               jcols := Some (local_slice julc (min (julc + jtw) (ImageWidth t)) jtw),
               vars.ulc := Some julc, jp2k_tile := tile\<rparr>"
    have "strip_rows t u jth jtw julr julc r st
            = strip_rows t u jth jtw julr julc (r + RowsPerStrip t) ?st2"
      apply (subst strip_rows.simps)
      using assms(1-4) assms(6) True m
      apply (simp add: Let_def fetch_strip_def)
      done
    then show ?thesis using True by (intro exI [of _ ?st2]) simp
  qed
next
  case False
  show ?thesis
  proof -
    let ?sn = "computeStrip t r"
    let ?st2 = "st\<lparr>stripnum := Some ?sn,
               tiff_strip := readEncodedStrip t ?sn (tiff_strip st),
               reads := reads st @ [ReadEncodedStrip ?sn],
               jrows := Some (local_slice (max julr (?sn * RowsPerStrip t))
                    (min (julr + jth) (?sn * RowsPerStrip t + RowsPerStrip t)) jth),
               jcols := Some (local_slice julc (min (julc + jtw) (ImageWidth t)) jtw),
               vars.ulc := Some julc, jp2k_tile := tile\<rparr>"
    have "strip_rows t u jth jtw julr julc r st
            = strip_rows t u jth jtw julr julc (r + RowsPerStrip t) ?st2"
      apply (subst strip_rows.simps)
      using assms(1-4) assms(6) False
      apply (simp add: Let_def fetch_strip_def)
      done
    then show ?thesis using False by (intro exI [of _ ?st2]) simp
  qed
qed

lemma filled_mono:
  assumes "filled t img jth jtw julr julc b1 z tile" and "b2 \<le> b1"
  shows "filled t img jth jtw julr julc b2 z tile"
  using assms unfolding filled_def by (meson less_le_trans)

lemma filled_step:
  fixes s rps jth jtw julr julc z :: nat
  assumes old: "filled t img jth jtw julr julc (s * rps) z tile"
    and sh: "shaped jth jtw tile'"
    and pt: "\<forall>i<jth. \<forall>j<jtw. tile' ! i ! j =
               (if max julr (s * rps) \<le> julr + i \<and> julr + i < min (julr + jth) (s * rps + rps)
                   \<and> julc \<le> julc + j \<and> julc + j < min (julc + jtw) (ImageWidth t)
                then buf ! (julr + i - s * rps) ! (julc + j - 0) else tile ! i ! j)"
    and buf: "\<forall>i<rps. \<forall>j<ImageWidth t. s * rps + i < ImageLength t \<longrightarrow>
                buf ! i ! j = img ! (s * rps + i) ! j"
    and z: "s * rps + rps \<le> z"
  shows "filled t img jth jtw julr julc (s * rps + rps) z tile'"
  unfolding filled_def
proof (intro conjI allI impI)
  show "shaped jth jtw tile'" by (rule sh)
next
  fix i j
  assume ij: "i < jth" "j < jtw" and y: "julr + i < s * rps + rps" "julr + i < ImageLength t"
    and x: "julc + j < ImageWidth t"
  from pt ij have p: "tile' ! i ! j =
               (if max julr (s * rps) \<le> julr + i \<and> julr + i < min (julr + jth) (s * rps + rps)
                   \<and> julc \<le> julc + j \<and> julc + j < min (julc + jtw) (ImageWidth t)
                then buf ! (julr + i - s * rps) ! (julc + j - 0) else tile ! i ! j)" by blast
  show "tile' ! i ! j = img ! (julr + i) ! (julc + j)"
  proof (cases "julr + i < s * rps")
    case True
    then have "\<not> max julr (s * rps) \<le> julr + i" by linarith
    then have "tile' ! i ! j = tile ! i ! j" using p by simp
    also have "\<dots> = img ! (julr + i) ! (julc + j)"
      using old ij True y(2) x unfolding filled_def by blast
    finally show ?thesis .
  next
    case False
    then obtain d where d: "julr + i = s * rps + d" using le_Suc_ex not_less by blast
    have dl: "d < rps" using y(1) d by linarith
    have c1: "max julr (s * rps) \<le> julr + i" using False by linarith
    have c2: "julr + i < min (julr + jth) (s * rps + rps)" using ij(1) y(1) by linarith
    have c3: "julc + j < min (julc + jtw) (ImageWidth t)" using ij(2) x by linarith
    have "tile' ! i ! j = buf ! (julr + i - s * rps) ! (julc + j)" using p c1 c2 c3 by simp
    also have "julr + i - s * rps = d" using d by linarith
    also have "buf ! d ! (julc + j) = img ! (s * rps + d) ! (julc + j)"
      using buf dl x y(2) d by simp
    finally show ?thesis using d by simp
  qed
next
  fix i j
  assume ij: "i < jth" "j < jtw" and zr: "z \<le> julr + i \<or> ImageWidth t \<le> julc + j"
  from pt ij have p: "tile' ! i ! j =
               (if max julr (s * rps) \<le> julr + i \<and> julr + i < min (julr + jth) (s * rps + rps)
                   \<and> julc \<le> julc + j \<and> julc + j < min (julc + jtw) (ImageWidth t)
                then buf ! (julr + i - s * rps) ! (julc + j - 0) else tile ! i ! j)" by blast
  have "\<not> (julr + i < min (julr + jth) (s * rps + rps) \<and> julc + j < min (julc + jtw) (ImageWidth t))"
    using zr z by linarith
  then have "tile' ! i ! j = tile ! i ! j" using p by auto
  also have "\<dots> = replicate (SamplesPerPixel t) 0"
    using old ij zr unfolding filled_def by blast
  finally show "tile' ! i ! j = replicate (SamplesPerPixel t) 0" .
qed

lemma div_mult_bounds:
  fixes n :: nat assumes "0 < n"
  shows "x div n * n \<le> x" "x < x div n * n + n"
  using assms dividend_less_div_times [OF assms, of x] by (simp_all add: add.commute)

lemma strip_rows_inv:
  fixes t :: tiff and u :: bool and jth jtw julr julc :: nat and img :: image
    and rd0 :: "read_call list"
  defines "rps \<equiv> RowsPerStrip t" and "s0 \<equiv> julr div RowsPerStrip t"
    and "E \<equiv> min (julr + jth) (ImageLength t)" and "Z \<equiv> numberOfStrips t * RowsPerStrip t"
  assumes src: "strip_source t u img"
    and pos: "0 < RowsPerStrip t" "0 < jth" "0 < jtw" "0 < ImageWidth t"
    and jb: "julr = a * jth" "julc = b * jtw" "julc < ImageWidth t"
    and inv: "filled t img jth jtw julr julc ((s0 + k) * rps) Z (jp2k_tile st)"
    and prev: "\<forall>k'. k = Suc k' \<longrightarrow>
                 vars.ulc st = Some julc \<and> stripnum st = Some (s0 + k') \<and> (s0 + k') * rps < E"
    and rd: "\<exists>new. reads st = rd0 @ new \<and> (\<forall>c\<in>set new. strip_call t c)"
  shows "\<exists>st'. strip_rows t u jth jtw julr julc (julr + k * rps) st = Inr st'
           \<and> filled t img jth jtw julr julc Z Z (jp2k_tile st')
           \<and> (\<exists>new. reads st' = rd0 @ new \<and> (\<forall>c\<in>set new. strip_call t c))
           \<and> (julr < ImageLength t \<longrightarrow> E \<le> Z \<longrightarrow>
                 vars.ulc st' = Some julc
                 \<and> (\<exists>s. stripnum st' = Some s \<and> s * rps < E \<and> E \<le> s * rps + rps))"
  using inv prev rd
proof (induction "E - (s0 + k) * rps" arbitrary: k st rule: less_induct)
  case less
  let ?r = "julr + k * rps"
  let ?s = "s0 + k"
  have rp: "0 < rps" using pos(1) by (simp add: rps_def)
  have sdiv: "?r div rps = ?s" using rp by (simp add: s0_def rps_def)
  have s0b: "s0 * rps \<le> julr" "julr < s0 * rps + rps"
    using div_mult_bounds [OF rp, of julr] by (simp_all add: s0_def rps_def)
  have cs: "computeStrip t ?r = ?s" using src sdiv by (simp add: strip_source_def rps_def)
  show ?case
  proof (cases "?s * rps < E")
    case False
    have nc: "\<not> (?r div RowsPerStrip t) * RowsPerStrip t < min (julr + jth) (ImageLength t)"
      using False unfolding sdiv [unfolded rps_def] rps_def E_def by assumption
    have ex: "strip_rows t u jth jtw julr julc ?r st = Inr st"
      using pos(1) nc by (rule strip_rows_exit)
    have f: "filled t img jth jtw julr julc Z Z (jp2k_tile st)"
      unfolding filled_def
    proof (intro conjI allI impI)
      show "shaped jth jtw (jp2k_tile st)" using less.prems(1) by (simp add: filled_def)
    next
      fix i j assume a: "i < jth" "j < jtw" "julr + i < Z" "julr + i < ImageLength t"
        "julc + j < ImageWidth t"
      have "julr + i < E" using a(1,4) by (simp add: E_def)
      then have "julr + i < ?s * rps" using False by linarith
      then show "jp2k_tile st ! i ! j = img ! (julr + i) ! (julc + j)"
        using less.prems(1) a unfolding filled_def by blast
    next
      fix i j assume a: "i < jth" "j < jtw" "Z \<le> julr + i \<or> ImageWidth t \<le> julc + j"
      then show "jp2k_tile st ! i ! j = replicate (SamplesPerPixel t) 0"
        using less.prems(1) unfolding filled_def by blast
    qed
    have l: "vars.ulc st = Some julc \<and> (\<exists>s. stripnum st = Some s \<and> s * rps < E \<and> E \<le> s * rps + rps)"
      if "julr < ImageLength t"
    proof (cases k)
      case 0
      have "julr < E" using that pos(2) by (simp add: E_def)
      then have "s0 * rps < E" using s0b(1) by linarith
      then show ?thesis using False 0 by simp
    next
      case (Suc k')
      with less.prems(2) have p: "vars.ulc st = Some julc" "stripnum st = Some (s0 + k')"
        "(s0 + k') * rps < E" by simp_all
      have "E \<le> (s0 + k') * rps + rps" using False Suc by (simp add: algebra_simps)
      then show ?thesis using p by blast
    qed
    show ?thesis using ex f less.prems(3) l by simp
  next
    case True
    then have cond: "(?r div RowsPerStrip t) * RowsPerStrip t < min (julr + jth) (ImageLength t)"
      unfolding sdiv [unfolded rps_def] rps_def E_def by assumption
    show ?thesis
    proof (cases "?s < numberOfStrips t")
      case False
      then have ns: "numberOfStrips t \<le> computeStrip t ?r" using cs by simp
      have br: "strip_rows t u jth jtw julr julc ?r st = Inr (st\<lparr>stripnum := Some ?s\<rparr>)"
        using strip_rows_break [OF pos(1) cond ns] cs by simp
      have "Z \<le> ?s * rps" using False by (simp add: Z_def rps_def)
      then have f: "filled t img jth jtw julr julc Z Z (jp2k_tile st)"
        using less.prems(1) by (rule filled_mono [rotated])
      have "\<not> E \<le> Z" using True \<open>Z \<le> ?s * rps\<close> by linarith
      then show ?thesis using br f less.prems(3) by simp
    next
      case True
      note lt = True
      let ?ulr = "max julr (?s * rps)" and ?llr = "min (julr + jth) (?s * rps + rps)"
      let ?urc = "min (julc + jtw) (ImageWidth t)"
      let ?buf = "fetch_strip t u ?s st"
      have bsh: "shaped rps (ImageWidth t) ?buf"
        and bpt: "\<forall>i<rps. \<forall>j<ImageWidth t. ?s * rps + i < ImageLength t \<longrightarrow>
                    ?buf ! i ! j = img ! (?s * rps + i) ! j"
        using src by (simp_all add: strip_source_def rps_def)
      have dsh: "shaped jth jtw (jp2k_tile st)" using less.prems(1) by (simp add: filled_def)
      have sE: "?s * rps < julr + jth" using \<open>?s * rps < E\<close> by (simp add: E_def)
      have jlt: "julr < ?s * rps + rps" using s0b(2) by (simp add: algebra_simps)
      have r1: "julr \<le> ?ulr" "?s * rps \<le> ?ulr" "?llr \<le> julr + jth" "?llr \<le> ?s * rps + rps"
        by simp_all
      have r2: "?ulr < ?llr" using sE jlt pos(2) rp by simp
      have c1: "julc \<le> julc" "(0::nat) \<le> julc" "?urc \<le> julc + jtw" "?urc \<le> 0 + ImageWidth t"
        by simp_all
      have c2: "julc < ?urc" using pos(3) jb(3) by simp
      have tb: "?s * rps = ?s * rps" "(0::nat) = 0 * ImageWidth t" by simp_all
      from copy_region [OF pos(2) pos(3) rp pos(4) jb(1) jb(2) tb r1(1) r1(2) r2 r1(3) r1(4)
          c1(1) c1(2) c2 c1(3) c1(4) dsh bsh, where spp = "SamplesPerPixel t"]
      obtain tile' where
        set: "setitem (jth, jtw, SamplesPerPixel t) (local_slice ?ulr ?llr jth)
                (local_slice julc ?urc jtw) (jp2k_tile st)
                (slice_len rps (local_slice ?ulr ?llr rps),
                 slice_len (ImageWidth t) (local_slice julc ?urc (ImageWidth t)), SamplesPerPixel t)
                (map (getslice (local_slice julc ?urc (ImageWidth t)))
                   (getslice (local_slice ?ulr ?llr rps) ?buf)) = Inr tile'"
        and tsh: "shaped jth jtw tile'"
        and tpt: "\<forall>i<jth. \<forall>j<jtw. tile' ! i ! j =
               (if ?ulr \<le> julr + i \<and> julr + i < ?llr \<and> julc \<le> julc + j \<and> julc + j < ?urc
                then ?buf ! (julr + i - ?s * rps) ! (julc + j - 0) else jp2k_tile st ! i ! j)"
        by blast
      have ch: "u \<longrightarrow> SamplesPerPixel t \<le> 4" using src by (simp add: strip_source_def)
      have lt': "computeStrip t ?r < numberOfStrips t" using lt cs by simp
      have set': "setitem (jth, jtw, SamplesPerPixel t)
           (local_slice (max julr (computeStrip t ?r * RowsPerStrip t))
              (min (julr + jth) (computeStrip t ?r * RowsPerStrip t + RowsPerStrip t)) jth)
           (local_slice julc (min (julc + jtw) (ImageWidth t)) jtw)
           (jp2k_tile st)
           (slice_len (RowsPerStrip t)
              (local_slice (max julr (computeStrip t ?r * RowsPerStrip t))
                 (min (julr + jth) (computeStrip t ?r * RowsPerStrip t + RowsPerStrip t))
                 (RowsPerStrip t)),
            slice_len (ImageWidth t) (local_slice julc (min (julc + jtw) (ImageWidth t)) (ImageWidth t)),
            SamplesPerPixel t)
           (map (getslice (local_slice julc (min (julc + jtw) (ImageWidth t)) (ImageWidth t)))
              (getslice
                 (local_slice (max julr (computeStrip t ?r * RowsPerStrip t))
                    (min (julr + jth) (computeStrip t ?r * RowsPerStrip t + RowsPerStrip t))
                    (RowsPerStrip t))
                 (fetch_strip t u (computeStrip t ?r) st))) = Inr tile'"
        using set unfolding cs [unfolded rps_def] rps_def .
      from strip_rows_step [OF pos(1) pos(4) cond lt' ch set'] cs
      obtain st2 where
        eq: "strip_rows t u jth jtw julr julc ?r st
               = strip_rows t u jth jtw julr julc (?r + RowsPerStrip t) st2"
        and t2: "jp2k_tile st2 = tile'" and u2: "vars.ulc st2 = Some julc"
        and s2: "stripnum st2 = Some ?s"
        and rd2: "reads st2 = reads st @ [if u then ReadRGBAStrip (?s * RowsPerStrip t)
                                    else ReadEncodedStrip ?s]"
        unfolding rps_def by auto
      have zle: "?s * rps + rps \<le> Z"
      proof -
        have "Suc ?s \<le> numberOfStrips t" using lt by simp
        then have "Suc ?s * rps \<le> numberOfStrips t * rps" by (rule mult_le_mono1)
        then show ?thesis by (simp add: Z_def rps_def)
      qed
      have f2: "filled t img jth jtw julr julc ((s0 + Suc k) * rps) Z (jp2k_tile st2)"
      proof -
        have "filled t img jth jtw julr julc (?s * rps + rps) Z tile'"
          using less.prems(1) tsh tpt bpt zle by (rule filled_step)
        then show ?thesis by (simp add: t2 algebra_simps)
      qed
      have p2: "\<forall>k'. Suc k = Suc k' \<longrightarrow>
                 vars.ulc st2 = Some julc \<and> stripnum st2 = Some (s0 + k') \<and> (s0 + k') * rps < E"
        using u2 s2 \<open>?s * rps < E\<close> by simp
      have r3: "\<exists>new. reads st2 = rd0 @ new \<and> (\<forall>c\<in>set new. strip_call t c)"
      proof -
        from less.prems(3) obtain new where n: "reads st = rd0 @ new" "\<forall>c\<in>set new. strip_call t c"
          by blast
        let ?c = "if u then ReadRGBAStrip (?s * RowsPerStrip t) else ReadEncodedStrip ?s"
        have "strip_call t ?c" using lt unfolding strip_call_def by auto
        then have "\<forall>c\<in>set (new @ [?c]). strip_call t c" using n(2) by simp
        moreover have "reads st2 = rd0 @ (new @ [?c])" using rd2 n(1) by simp
        ultimately show ?thesis by blast
      qed
      have m: "E - (s0 + Suc k) * rps < E - (s0 + k) * rps"
        using \<open>?s * rps < E\<close> rp by (simp add: algebra_simps)
      have rr: "?r + RowsPerStrip t = julr + Suc k * rps" by (simp add: rps_def)
      from less.hyps [OF m f2 p2 r3] show ?thesis unfolding eq rr .
    qed
  qed
qed

lemma getslice_prefix: "getslice (0, int m) xs = take m xs"
  by (simp add: getslice_def slice_len_def slice_start_def slice_index_def min_def)

lemma ceil_cover: "0 < (b::nat) \<Longrightarrow> a \<le> (a + b - 1) div b * b"
proof -
  assume b: "0 < b"
  have "a + b - 1 < (a + b - 1) div b * b + b" using div_mult_bounds(2) [OF b] .
  then show ?thesis using b by linarith
qed

lemma last_strip_index:
  fixes s rps H :: nat
  assumes "0 < rps" "s * rps < H" "H \<le> s * rps + rps"
  shows "(H + rps - 1) div rps = Suc s"
proof (rule div_nat_eqI)
  show "rps * Suc s \<le> H + rps - 1" using assms by (simp add: mult.commute)
  show "H + rps - 1 < rps * Suc (Suc s)" using assms by (simp add: mult.commute)
qed

lemma full_tile_fits:
  fixes row jth H :: nat
  assumes "0 < jth" "H mod jth = 0" "row * jth < H"
  shows "row * jth + jth \<le> H"
proof -
  from assms(2) have "jth dvd H" by (simp add: dvd_eq_mod_eq_0)
  then obtain q where q: "H = jth * q" unfolding dvd_def by blast
  with assms(3) have "row * jth < q * jth" by (simp add: mult.commute)
  then have "row < q" by simp
  then have "Suc row \<le> q" by simp
  then have "Suc row * jth \<le> q * jth" by (rule mult_le_mono1)
  then show ?thesis using q by (simp add: mult.commute)
qed

lemma inner_tile_fits:
  fixes col jtw W :: nat
  assumes "0 < jtw" "Suc col < (W + jtw - 1) div jtw"
  shows "col * jtw + jtw \<le> W"
  using ceil_mult_bound [OF assms] by simp

lemma last_tile_partial:
  fixes col jtw W :: nat
  assumes "0 < jtw" "W mod jtw \<noteq> 0" "Suc col = (W + jtw - 1) div jtw"
  shows "W < col * jtw + jtw"
proof -
  have "W \<le> Suc col * jtw" using ceil_cover [OF assms(1), of W] assms(3) by simp
  moreover have "W \<noteq> Suc col * jtw"
  proof
    assume "W = Suc col * jtw"
    then have "W mod jtw = 0" by simp
    with assms(2) show False by simp
  qed
  ultimately show ?thesis by simp
qed

end
